theory Spec2Isabelle
  imports Complex_Main "HOL-Library.FSet"
begin

section \<open>Python values shared by the scripts\<close>

text \<open>
  The scripts are Python notebooks that run top to bottom. Floating-point numbers are
  modelled as real numbers, Python integers as \<open>int\<close>, and a raised exception as the
  left injection of a sum type.
\<close>

datatype py_error =
    IndexError | KeyError | ValueError | TypeError
  | HTTPError | ConnectionError | JSONDecodeError

text \<open>\<^verbatim>\<open>range(a, b, step)\<close> for a positive step.\<close>

definition py_range :: "int \<Rightarrow> int \<Rightarrow> int \<Rightarrow> int list" where
  "py_range a b step = map (\<lambda>k. a + int k * step) [0 ..< nat ((b - a + step - 1) div step)]"

section \<open>Sector view classifier (Competing Developments Analysis)\<close>

subsection \<open>Sector table\<close>

definition SECTOR_SIZE :: int where
  "SECTOR_SIZE = 20"

text \<open>One dictionary appended to \<^verbatim>\<open>sector_data\<close>, that is one row of \<^verbatim>\<open>df\<close>.\<close>

record sector_row =
  start :: int
  end_angle :: int
  green :: real
  water :: real
  building :: real
  avg_height :: real

subsection \<open>Planar geometry\<close>

text \<open>
  The geometry library is modelled on a raster: a geometry is the finite set of unit
  cells it covers, its area is the number of cells, and intersection is intersection of
  cell sets. Two features of one layer may cover the same cell, as two overlapping
  polygons of a map layer do.
\<close>

type_synonym geom = "(int \<times> int) fset"

definition area :: "geom \<Rightarrow> real" where
  "area g = real (fcard g)"

definition intersection :: "geom \<Rightarrow> geom \<Rightarrow> geom" where
  "intersection g sector = g |\<inter>| sector"

definition intersects :: "geom \<Rightarrow> geom \<Rightarrow> bool" where
  "intersects g h = (g |\<inter>| h \<noteq> {||})"

subsection \<open>Height data\<close>

text \<open>A feature of the building-outline file, with the two columns the script reads.\<close>

record landsd_feature =
  TopHeight :: real
  BaseHeight :: real
  geometry :: geom

definition HEIGHT_M :: "landsd_feature \<Rightarrow> real" where
  "HEIGHT_M f = TopHeight f - BaseHeight f"

text \<open>\<^verbatim>\<open>landsd = landsd[landsd["HEIGHT_M"] > 5]\<close>\<close>

definition landsd_tall :: "landsd_feature list \<Rightarrow> landsd_feature list" where
  "landsd_tall landsd = filter (\<lambda>f. 5 < HEIGHT_M f) landsd"

text \<open>\<^verbatim>\<open>nearby = landsd[landsd.intersects(analysis_circle)]\<close>, after the height filter.\<close>

definition nearby :: "landsd_feature list \<Rightarrow> geom \<Rightarrow> landsd_feature list" where
  "nearby landsd analysis_circle =
     filter (\<lambda>f. intersects (geometry f) analysis_circle) (landsd_tall landsd)"

subsection \<open>Metric collection\<close>

text \<open>
  \<^verbatim>\<open>layer.intersection(sector).area.sum() if len(layer) else 0\<close>, divided by the sector's
  area unless that area is zero.
\<close>

definition layer_area :: "geom list \<Rightarrow> geom \<Rightarrow> real" where
  "layer_area layer sector =
     (if length layer \<noteq> 0 then sum_list (map (\<lambda>g. area (intersection g sector)) layer) else 0)"

definition coverage_ratio :: "geom list \<Rightarrow> geom \<Rightarrow> real" where
  "coverage_ratio layer sector =
     (let sector_area = area sector
      in if sector_area \<noteq> 0 then layer_area layer sector / sector_area else 0)"

definition mean :: "real list \<Rightarrow> real" where
  "mean xs = sum_list xs / real (length xs)"

definition sector_avg_height :: "landsd_feature list \<Rightarrow> geom \<Rightarrow> real" where
  "sector_avg_height nearby_features sector =
     (let sector_heights = filter (\<lambda>f. intersects (geometry f) sector) nearby_features
      in if length sector_heights \<noteq> 0 then mean (map HEIGHT_M sector_heights) else 0)"

text \<open>
  The loop \<^verbatim>\<open>for angle in range(0, 360, SECTOR_SIZE)\<close>. The polygon that
  \<^verbatim>\<open>create_sector\<close> builds around the fixed centre is a parameter.
\<close>

definition sector_data ::
  "(int \<Rightarrow> int \<Rightarrow> geom) \<Rightarrow> geom list \<Rightarrow> geom list \<Rightarrow> geom list \<Rightarrow> landsd_feature list
     \<Rightarrow> sector_row list" where
  "sector_data create_sector parks water_layer buildings nearby_features =
     map (\<lambda>angle.
            let sector = create_sector angle (angle + SECTOR_SIZE)
            in \<lparr>start = angle, end_angle = angle + SECTOR_SIZE,
                green = coverage_ratio parks sector,
                water = coverage_ratio water_layer sector,
                building = coverage_ratio buildings sector,
                avg_height = sector_avg_height nearby_features sector\<rparr>)
         (py_range 0 360 SECTOR_SIZE)"

subsection \<open>Normalization\<close>

text \<open>
  \<^verbatim>\<open>normalize(series)\<close>: the maximum and minimum of an empty series are NaN, the
  comparison with 0 fails and the arithmetic on the empty series gives the empty series.
\<close>

definition normalize_series :: "real list \<Rightarrow> real list" where
  "normalize_series series =
     (if series = [] then []
      else if Max (set series) - Min (set series) = 0 then map (\<lambda>x. x * 0) series
      else map (\<lambda>x. (x - Min (set series)) / (Max (set series) - Min (set series))) series)"

subsection \<open>Scoring and classification\<close>

datatype view = GREEN | WATER | CITY | OPEN

text \<open>
  \<^verbatim>\<open>idxmax(axis=1)\<close> over the columns in the order they are listed: the label of the
  first column that holds the row's maximum. The scan keeps the current best and moves
  only to a strictly larger score.
\<close>

fun idxmax_from :: "'a \<times> real \<Rightarrow> ('a \<times> real) list \<Rightarrow> 'a" where
  "idxmax_from (l, s) [] = l"
| "idxmax_from (l, s) ((l', s') # cols) =
     (if s < s' then idxmax_from (l', s') cols else idxmax_from (l, s) cols)"

definition city_score :: "real \<Rightarrow> real \<Rightarrow> real" where
  "city_score height_n density_n = height_n * density_n"

definition open_score :: "real \<Rightarrow> real \<Rightarrow> real" where
  "open_score height_n density_n = (1 - density_n) * (1 - height_n)"

text \<open>The view of one row from its four normalized metrics.\<close>

definition view_of :: "real \<Rightarrow> real \<Rightarrow> real \<Rightarrow> real \<Rightarrow> view" where
  "view_of green_n water_n height_n density_n =
     idxmax_from (GREEN, green_n)
       [(WATER, water_n), (CITY, city_score height_n density_n),
        (OPEN, open_score height_n density_n)]"

text \<open>The columns \<^verbatim>\<open>start\<close>, \<^verbatim>\<open>end\<close> and \<^verbatim>\<open>view\<close> of \<^verbatim>\<open>df\<close> after scoring.\<close>

type_synonym arc = "int \<times> int \<times> view"

definition classify :: "sector_row list \<Rightarrow> arc list" where
  "classify df =
     (let green_n = normalize_series (map green df);
          water_n = normalize_series (map water df);
          height_n = normalize_series (map avg_height df);
          density_n = normalize_series (map building df)
      in map (\<lambda>i. (start (df ! i), end_angle (df ! i),
                     view_of (green_n ! i) (water_n ! i) (height_n ! i) (density_n ! i)))
           [0 ..< length df])"

subsection \<open>Merging continuous sectors\<close>

text \<open>
  The loop over rows \<open>1 \<dots> len(df) - 1\<close> with its three running variables, followed
  by the append after the loop.
\<close>

fun merge_loop :: "arc \<Rightarrow> arc list \<Rightarrow> arc list \<Rightarrow> arc list" where
  "merge_loop (current_start, current_end, current_type) [] merged =
     merged @ [(current_start, current_end, current_type)]"
| "merge_loop (current_start, current_end, current_type) ((s, e, v) # rows) merged =
     (if v = current_type then merge_loop (current_start, e, current_type) rows merged
      else merge_loop (s, e, v) rows (merged @ [(current_start, current_end, current_type)]))"

text \<open>
  The wrap step: \<^verbatim>\<open>merged[0]\<close> is overwritten, then \<^verbatim>\<open>merged.pop()\<close> drops the last
  element of the list, whatever its length.
\<close>

definition wrap_fuse :: "arc list \<Rightarrow> arc list" where
  "wrap_fuse merged =
     (if snd (snd (hd merged)) = snd (snd (last merged))
      then butlast (merged[0 := (fst (last merged), fst (snd (hd merged)), snd (snd (hd merged)))])
      else merged)"

text \<open>\<^verbatim>\<open>df.iloc[0]\<close> on an empty table raises \<^verbatim>\<open>IndexError\<close>.\<close>

fun merge_sectors :: "arc list \<Rightarrow> py_error + arc list" where
  "merge_sectors [] = Inl IndexError"
| "merge_sectors (row0 # rows) = Inr (wrap_fuse (merge_loop row0 rows []))"

text \<open>The whole classifier, from the fetched layers to the list of arcs that is drawn.\<close>

definition view_arcs ::
  "(int \<Rightarrow> int \<Rightarrow> geom) \<Rightarrow> geom list \<Rightarrow> geom list \<Rightarrow> geom list \<Rightarrow> landsd_feature list \<Rightarrow> geom
     \<Rightarrow> py_error + arc list" where
  "view_arcs create_sector parks water_layer buildings landsd analysis_circle =
     merge_sectors (classify
       (sector_data create_sector parks water_layer buildings (nearby landsd analysis_circle)))"

subsection \<open>What it means for arcs to tile the circle\<close>

text \<open>
  An arc runs counter-clockwise from its start angle to its end angle; an arc whose end
  is not above its start passes through 0 degrees. Arcs tile the circle once when each
  ends where the next starts, the last ends where the first starts, and the widths add
  up to 360 degrees.
\<close>

definition arc_width :: "arc \<Rightarrow> int" where
  "arc_width a = (if fst a < fst (snd a) then fst (snd a) - fst a else fst (snd a) - fst a + 360)"

fun chained :: "arc list \<Rightarrow> bool" where
  "chained [] = True"
| "chained [a] = True"
| "chained (a # b # arcs) = (fst (snd a) = fst b \<and> chained (b # arcs))"

definition tiles_circle :: "arc list \<Rightarrow> bool" where
  "tiles_circle arcs =
     (arcs \<noteq> [] \<and> chained arcs \<and> (fst (snd (last arcs)) - fst (hd arcs)) mod 360 = 0
      \<and> sum_list (map arc_width arcs) = 360)"

subsection \<open>Rows that follow one another\<close>

text \<open>
  Rows or arcs are contiguous from an angle when the first starts there, each has its
  start below its end, and each starts where the one before it ends.
\<close>

fun contiguous_from :: "int \<Rightarrow> arc list \<Rightarrow> bool" where
  "contiguous_from a [] = True"
| "contiguous_from a ((s, e, v) # rows) = (s = a \<and> s < e \<and> contiguous_from e rows)"

definition end_of :: "int \<Rightarrow> arc list \<Rightarrow> int" where
  "end_of a rows = (if rows = [] then a else fst (snd (last rows)))"

subsection \<open>Features of a layer that do not overlap\<close>

text \<open>No two features of the layer share a cell.\<close>

fun disjoint_features :: "geom list \<Rightarrow> bool" where
  "disjoint_features [] = True"
| "disjoint_features (g # layer) =
     (list_all (\<lambda>h. g |\<inter>| h = {||}) layer \<and> disjoint_features layer)"

section \<open>Identifier resolution\<close>

subsection \<open>The location service\<close>

text \<open>
  One candidate of the service's JSON answer: the keys \<^verbatim>\<open>score\<close> and \<^verbatim>\<open>location\<close>
  (with its \<^verbatim>\<open>x\<close> and \<^verbatim>\<open>y\<close>) may be missing.
\<close>

record candidate =
  score :: "real option"
  location :: "(real \<times> real) option"

text \<open>
  The body of a response is either not JSON, or an object whose key \<^verbatim>\<open>candidates\<close>
  is missing or holds a list. A request either fails to connect or gets a response with
  a status code and a body.
\<close>

datatype body = NotJSON | Object "candidate list option"

datatype http_reply = Unreachable | Response nat body

text \<open>
  The service answers a URL; every call of \<^verbatim>\<open>requests.get\<close> is recorded in a log of
  the URLs requested so far.
\<close>

definition requests_get :: "(string \<Rightarrow> http_reply) \<Rightarrow> string \<Rightarrow> string list \<Rightarrow> http_reply \<times> string list" where
  "requests_get service url sent = (service url, sent @ [url])"

subsection \<open>Text\<close>

text \<open>
  The scripts call the resolvers with a type, a value and a lot that are text, and text
  is a list of characters. What the methods \<^verbatim>\<open>upper\<close>, \<^verbatim>\<open>lower\<close> and
  \<^verbatim>\<open>strip\<close> of a Python string return depends on the character tables of the
  language; the three methods are parameters of the model.
\<close>

record str_methods =
  str_upper :: "string \<Rightarrow> string"
  str_lower :: "string \<Rightarrow> string"
  str_strip :: "string \<Rightarrow> string"

text \<open>\<^verbatim>\<open>s.replace(' ', '%20')\<close>\<close>

definition replace_spaces :: "string \<Rightarrow> string" where
  "replace_spaces s = concat (map (\<lambda>c. if c = CHR '' '' then ''%20'' else [c]) s)"

definition base_url :: string where
  "base_url = ''https://mapapi.geodata.gov.hk/gs/api/v1.0.0''"

definition lot_url :: "string \<Rightarrow> string" where
  "lot_url lot = base_url @ ''/lus/lot/SearchNumber?text='' @ replace_spaces lot"

subsection \<open>Choosing the best candidate\<close>

text \<open>
  \<^verbatim>\<open>max(xs, key=k)\<close> on a non-empty list: the scan keeps the current best and moves
  only to an element with a strictly greater key.
\<close>

fun max_by_from :: "('a \<Rightarrow> real) \<Rightarrow> 'a \<Rightarrow> 'a list \<Rightarrow> 'a" where
  "max_by_from k best [] = best"
| "max_by_from k best (x # xs) = (if k best < k x then max_by_from k x xs else max_by_from k best xs)"

text \<open>The two keys: \<^verbatim>\<open>x.get("score", 0)\<close> and \<^verbatim>\<open>x["score"]\<close>.\<close>

definition score_or_0 :: "candidate \<Rightarrow> real" where
  "score_or_0 x = (case score x of None \<Rightarrow> 0 | Some s \<Rightarrow> s)"

definition score_of :: "candidate \<Rightarrow> real" where
  "score_of x = the (score x)"

subsection \<open>\<^verbatim>\<open>resolve_query\<close> (Driving Distance Analysis)\<close>

record resolved =
  query_type :: string
  query_value :: string
  longitude :: real
  latitude :: real

definition query_url :: "str_methods \<Rightarrow> string \<Rightarrow> string \<Rightarrow> string" where
  "query_url m data_type v =
     (if data_type = ''LOT'' then base_url @ ''/lus/lot/SearchNumber?text='' @ replace_spaces v
      else base_url @ ''/lus/'' @ str_lower m data_type @ ''/Search?value='' @ v)"

text \<open>
  The body of the \<^verbatim>\<open>try\<close> block, given the reply to its one request. A raised
  exception is a left value.
\<close>

definition resolve_query_try ::
  "(real \<times> real \<Rightarrow> real \<times> real) \<Rightarrow> string \<Rightarrow> string \<Rightarrow> http_reply \<Rightarrow> py_error + resolved option" where
  "resolve_query_try transform data_type v reply =
     (case reply of
        Unreachable \<Rightarrow> Inl ConnectionError
      | Response status_code b \<Rightarrow>
          if status_code \<noteq> 200 then Inr None
          else (case b of
                  NotJSON \<Rightarrow> Inl JSONDecodeError
                | Object None \<Rightarrow> Inr None
                | Object (Some []) \<Rightarrow> Inr None
                | Object (Some (c # cs)) \<Rightarrow>
                    (case location (max_by_from score_or_0 c cs) of
                       None \<Rightarrow> Inl KeyError
                     | Some xy \<Rightarrow>
                         Inr (Some \<lparr>query_type = data_type, query_value = v,
                                    longitude = fst (transform xy),
                                    latitude = snd (transform xy)\<rparr>))))"

text \<open>
  The function: the type is upper-cased and stripped, one request is made, and the bare
  \<^verbatim>\<open>except\<close> turns every exception of the block into the result \<^verbatim>\<open>None\<close>.
\<close>

definition resolve_query ::
  "str_methods \<Rightarrow> (string \<Rightarrow> http_reply) \<Rightarrow> (real \<times> real \<Rightarrow> real \<times> real) \<Rightarrow> string \<Rightarrow> string
     \<Rightarrow> string list \<Rightarrow> (py_error + resolved option) \<times> string list" where
  "resolve_query m service transform data_type v sent =
     (let data_type = str_strip m (str_upper m data_type);
          (reply, sent') = requests_get service (query_url m data_type v) sent
      in (case resolve_query_try transform data_type v reply of
            Inl e \<Rightarrow> Inr None
          | Inr r \<Rightarrow> Inr r,
          sent'))"

subsection \<open>\<^verbatim>\<open>resolve_lot\<close>\<close>

text \<open>
  The last two lines of every copy of the function, given the body of the response:
  \<^verbatim>\<open>r.json()\<close> raises on a body that is not JSON, \<^verbatim>\<open>["candidates"]\<close> on a missing
  key, \<^verbatim>\<open>max\<close> on an empty list, the key \<^verbatim>\<open>x["score"]\<close> on a candidate without
  score, and \<^verbatim>\<open>best["location"]\<close> on a best candidate without location.
\<close>

definition best_location :: "body \<Rightarrow> py_error + real \<times> real" where
  "best_location b =
     (case b of
        NotJSON \<Rightarrow> Inl JSONDecodeError
      | Object None \<Rightarrow> Inl KeyError
      | Object (Some []) \<Rightarrow> Inl ValueError
      | Object (Some (c # cs)) \<Rightarrow>
          if list_ex (\<lambda>x. score x = None) (c # cs) then Inl KeyError
          else (case location (max_by_from score_of c cs) of
                  None \<Rightarrow> Inl KeyError
                | Some xy \<Rightarrow> Inr xy))"

text \<open>
  The copies in Surrounding Amenities and Land Use Context (lines 432, 702 and 975):
  no \<^verbatim>\<open>try\<close> block, and \<^verbatim>\<open>r.raise_for_status()\<close> raises on a status from 400 to 599
  before the body is read.
\<close>

definition resolve_lot ::
  "(string \<Rightarrow> http_reply) \<Rightarrow> string \<Rightarrow> string list \<Rightarrow> (py_error + real \<times> real) \<times> string list" where
  "resolve_lot service lot sent =
     (let (reply, sent') = requests_get service (lot_url lot) sent
      in (case reply of
            Unreachable \<Rightarrow> Inl ConnectionError
          | Response status_code b \<Rightarrow>
              if 400 \<le> status_code \<and> status_code < 600 then Inl HTTPError
              else best_location b,
          sent'))"

text \<open>
  The copies in Competing Developments Analysis and in the single-lot Driving Distance
  Analysis: the same without the call of \<^verbatim>\<open>raise_for_status\<close>.
\<close>

definition resolve_lot_unchecked ::
  "(string \<Rightarrow> http_reply) \<Rightarrow> string \<Rightarrow> string list \<Rightarrow> (py_error + real \<times> real) \<times> string list" where
  "resolve_lot_unchecked service lot sent =
     (let (reply, sent') = requests_get service (lot_url lot) sent
      in (case reply of
            Unreachable \<Rightarrow> Inl ConnectionError
          | Response status_code b \<Rightarrow> best_location b,
          sent'))"

subsection \<open>What counts as a resolution failure\<close>

text \<open>
  No candidate was found: the request did not connect, or the body is not JSON, has no
  candidate list or has an empty one. The response is a non-success response when its
  status is not 200.
\<close>

fun no_candidates :: "http_reply \<Rightarrow> bool" where
  "no_candidates Unreachable = True"
| "no_candidates (Response status_code NotJSON) = True"
| "no_candidates (Response status_code (Object None)) = True"
| "no_candidates (Response status_code (Object (Some cs))) = (cs = [])"

fun non_success :: "http_reply \<Rightarrow> bool" where
  "non_success Unreachable = True"
| "non_success (Response status_code b) = (status_code \<noteq> 200)"

text \<open>The first element of a list whose key is the greatest key of the list.\<close>

definition first_highest :: "('a \<Rightarrow> real) \<Rightarrow> 'a list \<Rightarrow> 'a option" where
  "first_highest k xs = find (\<lambda>x. k x = Max (set (map k xs))) xs"

section \<open>Road traffic noise (Surrounding Amenities and Land Use Context)\<close>

subsection \<open>Settings and the emission model\<close>

definition TRAFFIC_FLOW :: real where
  "TRAFFIC_FLOW = 1200"

definition HEAVY_PERCENT :: real where
  "HEAVY_PERCENT = 0.12"

definition SPEED :: real where
  "SPEED = 40"

definition GROUND_ABSORPTION :: real where
  "GROUND_ABSORPTION = 0.6"

text \<open>\<^verbatim>\<open>np.log10\<close>, on real numbers.\<close>

definition log10 :: "real \<Rightarrow> real" where
  "log10 x = log 10 x"

definition traffic_emission :: "real \<Rightarrow> real \<Rightarrow> real \<Rightarrow> real" where
  "traffic_emission flow heavy_pct speed =
     (let L_light = 27.7 + 10 * log10 (flow * (1 - heavy_pct)) + 0.02 * speed;
          L_heavy = 23.1 + 10 * log10 (flow * heavy_pct) + 0.08 * speed;
          energy = 10 powr (L_light / 10) + 10 powr (L_heavy / 10)
      in 10 * log10 energy)"

definition L_source :: real where
  "L_source = traffic_emission TRAFFIC_FLOW HEAVY_PERCENT SPEED"

subsection \<open>Points and lines\<close>

type_synonym point = "real \<times> real"

text \<open>The coordinates of a \<^verbatim>\<open>LineString\<close>: at least two points.\<close>

type_synonym line = "point list"

definition point_distance :: "point \<Rightarrow> point \<Rightarrow> real" where
  "point_distance a b = sqrt ((fst b - fst a)\<^sup>2 + (snd b - snd a)\<^sup>2)"

text \<open>
  The squared distance from a point to a straight segment: the point is projected on the
  segment's line and the projection is clamped to the segment.
\<close>

definition segment_distance2 :: "point \<Rightarrow> point \<Rightarrow> point \<Rightarrow> real" where
  "segment_distance2 a b p =
     (let dx = fst b - fst a; dy = snd b - snd a; l2 = dx\<^sup>2 + dy\<^sup>2
      in if l2 = 0 then (fst p - fst a)\<^sup>2 + (snd p - snd a)\<^sup>2
         else let t = max 0 (min 1 (((fst p - fst a) * dx + (snd p - snd a) * dy) / l2))
              in (fst p - (fst a + t * dx))\<^sup>2 + (snd p - (snd a + t * dy))\<^sup>2)"

definition segment_distance :: "point \<Rightarrow> point \<Rightarrow> point \<Rightarrow> real" where
  "segment_distance a b p = sqrt (segment_distance2 a b p)"

text \<open>\<^verbatim>\<open>line.distance(Point(xx, yy))\<close>: the least distance to a segment of the line.\<close>

fun line_distance :: "line \<Rightarrow> point \<Rightarrow> real" where
  "line_distance [] p = 0"
| "line_distance [a] p = point_distance a p"
| "line_distance [a, b] p = segment_distance a b p"
| "line_distance (a # b # rest) p = min (segment_distance a b p) (line_distance (b # rest) p)"

fun line_length :: "line \<Rightarrow> real" where
  "line_length (a # b # rest) = point_distance a b + line_length (b # rest)"
| "line_length _ = 0"

text \<open>
  \<^verbatim>\<open>line.centroid\<close>: the mean of the segments' middle points, each weighted by the
  segment's length; a line of length zero has its first point as centroid.
\<close>

fun weighted_middles :: "line \<Rightarrow> point" where
  "weighted_middles (a # b # rest) =
     (point_distance a b * ((fst a + fst b) / 2) + fst (weighted_middles (b # rest)),
      point_distance a b * ((snd a + snd b) / 2) + snd (weighted_middles (b # rest)))"
| "weighted_middles _ = (0, 0)"

definition centroid :: "line \<Rightarrow> point" where
  "centroid line =
     (if line_length line = 0 then (case line of [] \<Rightarrow> (0, 0) | a # _ \<Rightarrow> a)
      else (fst (weighted_middles line) / line_length line, snd (weighted_middles line) / line_length line))"

subsection \<open>Propagation\<close>

definition A_div :: "real \<Rightarrow> real" where
  "A_div d = 20 * log10 (d + 1)"

definition A_ground :: "real \<Rightarrow> real" where
  "A_ground d = GROUND_ABSORPTION * 5 * log10 (d + 1)"

text \<open>
  A polygon, its buffer and a straight line between two points are regions, that is
  sets of points. The buffer of a region by \<open>r\<close> holds the points within the distance
  \<open>r\<close> of the region (the library draws its round corners with short straight
  segments), \<^verbatim>\<open>LineString([a, b])\<close> holds the points between \<open>a\<close> and \<open>b\<close>, and two
  regions intersect when they share a point.
\<close>

type_synonym region = "point set"

definition buffer :: "region \<Rightarrow> real \<Rightarrow> region" where
  "buffer g r = {p. \<exists>q \<in> g. point_distance p q \<le> r}"

definition sight_line :: "point \<Rightarrow> point \<Rightarrow> region" where
  "sight_line a b =
     {(fst a + t * (fst b - fst a), snd a + t * (snd b - snd a)) | t. 0 \<le> t \<and> t \<le> 1}"

definition region_intersects :: "region \<Rightarrow> region \<Rightarrow> bool" where
  "region_intersects g h = (g \<inter> h \<noteq> {})"

text \<open>
  The barrier term:
  \<^verbatim>\<open>np.where(site_polygon.buffer(5).intersects(LineString([(line.centroid.x, line.centroid.y), (xx, yy)])), 8, 0)\<close>
\<close>

definition A_barrier :: "region \<Rightarrow> line \<Rightarrow> point \<Rightarrow> real" where
  "A_barrier site_polygon line p =
     (if region_intersects (buffer site_polygon 5) (sight_line (centroid line) p) then 8 else 0)"

definition A_reflect :: real where
  "A_reflect = - 2"

text \<open>The level \<^verbatim>\<open>L\<close> that one line contributes at one grid point.\<close>

definition point_level :: "region \<Rightarrow> line \<Rightarrow> point \<Rightarrow> real" where
  "point_level site_polygon line p =
     (let d = line_distance line p
      in L_source - A_div d - A_ground d - A_barrier site_polygon line p + A_reflect)"

text \<open>
  The features fetched with the tag \<^verbatim>\<open>highway\<close>; only line geometries are kept as
  roads, and a multi-line contributes each of its lines.
\<close>

datatype feature_geometry =
    PointGeometry point
  | LineString line
  | MultiLineString "line list"
  | PolygonGeometry "point list"

fun is_road :: "feature_geometry \<Rightarrow> bool" where
  "is_road (LineString line) = True"
| "is_road (MultiLineString lines) = True"
| "is_road _ = False"

fun lines_of :: "feature_geometry \<Rightarrow> line list" where
  "lines_of (MultiLineString lines) = lines"
| "lines_of (LineString line) = [line]"
| "lines_of _ = []"

definition roads :: "feature_geometry list \<Rightarrow> feature_geometry list" where
  "roads features = filter is_road features"

text \<open>
  The energy of one grid cell: it starts at zero and every line of every road adds
  \<^verbatim>\<open>10**(L/10)\<close>.
\<close>

definition noise_energy :: "region \<Rightarrow> feature_geometry list \<Rightarrow> point \<Rightarrow> real" where
  "noise_energy site_polygon features p =
     fold (\<lambda>line energy. energy + 10 powr (point_level site_polygon line p / 10))
       (concat (map lines_of (roads features))) 0"

definition noise :: "region \<Rightarrow> feature_geometry list \<Rightarrow> point list \<Rightarrow> real list" where
  "noise site_polygon features grid =
     map (\<lambda>p. 10 * log10 (noise_energy site_polygon features p + 1 / 10 ^ 9)) grid"

subsection \<open>The middle of a line, and a rectangular site\<close>

text \<open>The point at a given distance along the line, and the point half way along it.\<close>

fun point_along :: "line \<Rightarrow> real \<Rightarrow> point" where
  "point_along [] d = (0, 0)"
| "point_along [a] d = a"
| "point_along (a # b # rest) d =
     (if d \<le> point_distance a b \<or> rest = []
      then (if point_distance a b = 0 then a
            else (fst a + d / point_distance a b * (fst b - fst a),
                  snd a + d / point_distance a b * (snd b - snd a)))
      else point_along (b # rest) (d - point_distance a b))"

definition midpoint :: "line \<Rightarrow> point" where
  "midpoint line = point_along line (line_length line / 2)"

text \<open>
  The region of a rectangular polygon with sides parallel to the axes, given by its
  least and greatest coordinates.
\<close>

definition box :: "real \<Rightarrow> real \<Rightarrow> real \<Rightarrow> real \<Rightarrow> region" where
  "box minx miny maxx maxy =
     {q. minx \<le> fst q \<and> fst q \<le> maxx \<and> miny \<le> snd q \<and> snd q \<le> maxy}"

section \<open>Properties of the sector view classifier\<close>

subsection \<open>Normalization\<close>

lemma normalize_series_constant:
  assumes "\<forall>x \<in> set series. x = c"
  shows "normalize_series series = map (\<lambda>_. 0) series"
proof (cases "series = []")
  case True
  then show ?thesis by (simp add: normalize_series_def)
next
  case False
  then have "set series = {c}" using assms by (cases series) auto
  then show ?thesis using False by (simp add: normalize_series_def)
qed

lemma normalize_series_bounds:
  assumes "y \<in> set (normalize_series series)"
  shows "0 \<le> y \<and> y \<le> 1"
proof (cases "series = []")
  case True
  then show ?thesis using assms by (simp add: normalize_series_def)
next
  case ne: False
  show ?thesis
  proof (cases "Max (set series) - Min (set series) = 0")
    case True
    then have "normalize_series series = map (\<lambda>x. x * 0) series"
      using ne by (simp add: normalize_series_def)
    then show ?thesis using assms by auto
  next
    case d: False
    then have "normalize_series series =
        map (\<lambda>x. (x - Min (set series)) / (Max (set series) - Min (set series))) series"
      using ne by (simp add: normalize_series_def)
    with assms obtain x where x: "x \<in> set series"
      and y: "y = (x - Min (set series)) / (Max (set series) - Min (set series))"
      by auto
    have lo: "Min (set series) \<le> x" and hi: "x \<le> Max (set series)"
      using x by simp_all
    then have pos: "0 < Max (set series) - Min (set series)" using d by linarith
    show ?thesis
      unfolding y using lo hi pos by (simp add: divide_le_eq_1)
  qed
qed

text \<open>
  Claim C3. Min-max normalization keeps the length of the series and returns values
  between 0 and 1; when all raw values are equal, every normalized value is 0 (the
  zero range is tested before the division).
\<close>

theorem normalize_series_range:
  "length (normalize_series series) = length series
   \<and> (\<forall>y \<in> set (normalize_series series). 0 \<le> y \<and> y \<le> 1)
   \<and> ((\<forall>x \<in> set series. x = c) \<longrightarrow> (\<forall>y \<in> set (normalize_series series). y = 0))"
proof (intro conjI impI)
  show "length (normalize_series series) = length series"
    by (simp add: normalize_series_def)
  show "\<forall>y \<in> set (normalize_series series). 0 \<le> y \<and> y \<le> 1"
    using normalize_series_bounds by blast
next
  assume "\<forall>x \<in> set series. x = c"
  then show "\<forall>y \<in> set (normalize_series series). y = 0"
    by (simp add: normalize_series_constant)
qed

theorem normalize_series_range_witness:
  "list_all (\<lambda>y. y = 0) (normalize_series [5, 5, 5])
   \<and> list_all (\<lambda>y. 0 \<le> y \<and> y \<le> 1) (normalize_series [3, 1, 2])"
proof -
  have same: "\<forall>x \<in> set [5, 5, 5 :: real]. x = 5" by simp
  have "\<forall>y \<in> set (normalize_series [5, 5, 5]). y = 0"
    using normalize_series_range [of "[5, 5, 5]" 5] same by blast
  moreover have "\<forall>y \<in> set (normalize_series [3, 1, 2]). 0 \<le> y \<and> y \<le> 1"
    using normalize_series_range [of "[3, 1, 2]" 0] by blast
  ultimately show ?thesis by (simp only: list_all_iff)
qed

subsection \<open>Classification\<close>

text \<open>
  Claim C4. The view of a sector is the category with the maximal score, and on equal
  scores the first one in the order GREEN, WATER, CITY, OPEN: a category is selected
  exactly when its score is strictly above every earlier category's and at least every
  later category's.
\<close>

theorem view_of_first_maximum:
  "(view_of green_n water_n height_n density_n = GREEN \<longleftrightarrow>
      water_n \<le> green_n \<and> height_n * density_n \<le> green_n
      \<and> (1 - density_n) * (1 - height_n) \<le> green_n)
   \<and> (view_of green_n water_n height_n density_n = WATER \<longleftrightarrow>
      green_n < water_n \<and> height_n * density_n \<le> water_n
      \<and> (1 - density_n) * (1 - height_n) \<le> water_n)
   \<and> (view_of green_n water_n height_n density_n = CITY \<longleftrightarrow>
      green_n < height_n * density_n \<and> water_n < height_n * density_n
      \<and> (1 - density_n) * (1 - height_n) \<le> height_n * density_n)
   \<and> (view_of green_n water_n height_n density_n = OPEN \<longleftrightarrow>
      green_n < (1 - density_n) * (1 - height_n) \<and> water_n < (1 - density_n) * (1 - height_n)
      \<and> height_n * density_n < (1 - density_n) * (1 - height_n))"
  unfolding view_of_def city_score_def open_score_def
  by (simp add: not_less)

subsection \<open>Merging when every sector has the same view\<close>

lemma view_of_zero: "view_of 0 0 0 0 = OPEN"
  by (simp add: view_of_def city_score_def open_score_def)

lemma classify_uniform:
  assumes "\<forall>r \<in> set df. green r = g \<and> water r = w \<and> building r = b \<and> avg_height r = h"
  shows "classify df = map (\<lambda>r. (start r, end_angle r, OPEN)) df"
proof -
  have g: "normalize_series (map green df) = map (\<lambda>_. 0) (map green df)"
    by (rule normalize_series_constant [where c = g]) (use assms in auto)
  have w: "normalize_series (map water df) = map (\<lambda>_. 0) (map water df)"
    by (rule normalize_series_constant [where c = w]) (use assms in auto)
  have b: "normalize_series (map building df) = map (\<lambda>_. 0) (map building df)"
    by (rule normalize_series_constant [where c = b]) (use assms in auto)
  have h: "normalize_series (map avg_height df) = map (\<lambda>_. 0) (map avg_height df)"
    by (rule normalize_series_constant [where c = h]) (use assms in auto)
  show ?thesis
    unfolding classify_def Let_def g w b h
    by (rule nth_equalityI) (simp_all add: view_of_zero)
qed

lemma merge_loop_same:
  assumes "\<forall>r \<in> set rows. snd (snd r) = t"
  shows "merge_loop (cs, ce, t) rows merged =
         merged @ [(cs, (if rows = [] then ce else fst (snd (last rows))), t)]"
  using assms
proof (induction rows arbitrary: ce)
  case Nil
  then show ?case by simp
next
  case (Cons r rows)
  obtain s e v where r: "r = (s, e, v)" by (cases r)
  with Cons.prems have "v = t" by simp
  with Cons r show ?case by simp
qed

lemma wrap_fuse_single: "wrap_fuse [a] = []"
  by (simp add: wrap_fuse_def)

lemma py_range_20:
  "py_range 0 360 20 =
     [0, 20, 40, 60, 80, 100, 120, 140, 160, 180, 200, 220, 240, 260, 280, 300, 320, 340]"
  by code_simp

lemma py_range_sectors:
  "py_range 0 360 SECTOR_SIZE =
     [0, 20, 40, 60, 80, 100, 120, 140, 160, 180, 200, 220, 240, 260, 280, 300, 320, 340]"
  by (simp only: SECTOR_SIZE_def py_range_20)

lemma sector_data_empty_layers:
  "sector_data create_sector [] [] [] [] =
     map (\<lambda>angle. \<lparr>start = angle, end_angle = angle + SECTOR_SIZE,
                    green = 0, water = 0, building = 0, avg_height = 0\<rparr>)
       (py_range 0 360 SECTOR_SIZE)"
  by (simp add: sector_data_def coverage_ratio_def layer_area_def sector_avg_height_def Let_def)

text \<open>
  Claim C1. With 18 sectors of 20 degrees and identical raw metrics every sector is
  classified OPEN and the loop leaves the single arc from 0 to 360 degrees; the wrap
  step then compares that arc with itself, overwrites it and pops it, so the list of
  arcs that is returned is empty.
\<close>

theorem uniform_sectors_merge_to_no_arc:
  "length (py_range 0 360 SECTOR_SIZE) = 18
   \<and> classify (map (\<lambda>angle. \<lparr>start = angle, end_angle = angle + SECTOR_SIZE,
                      green = g, water = w, building = b, avg_height = h\<rparr>)
                 (py_range 0 360 SECTOR_SIZE))
       = map (\<lambda>angle. (angle, angle + SECTOR_SIZE, OPEN)) (py_range 0 360 SECTOR_SIZE)
   \<and> merge_loop (0, 20, OPEN)
         (map (\<lambda>angle. (angle, angle + SECTOR_SIZE, OPEN)) (tl (py_range 0 360 SECTOR_SIZE))) []
       = [(0, 360, OPEN)]
   \<and> merge_sectors (classify (map (\<lambda>angle. \<lparr>start = angle, end_angle = angle + SECTOR_SIZE,
                      green = g, water = w, building = b, avg_height = h\<rparr>)
                 (py_range 0 360 SECTOR_SIZE)))
       = Inr []"
proof -
  let ?df = "map (\<lambda>angle. \<lparr>start = angle, end_angle = angle + SECTOR_SIZE,
                      green = g, water = w, building = b, avg_height = h\<rparr>)
                 (py_range 0 360 SECTOR_SIZE)"
  have len: "length (py_range 0 360 SECTOR_SIZE) = 18"
    by (simp add: py_range_sectors)
  have cls: "classify ?df = map (\<lambda>angle. (angle, angle + SECTOR_SIZE, OPEN)) (py_range 0 360 SECTOR_SIZE)"
    by (subst classify_uniform [where g = g and w = w and b = b and h = h]) (simp_all add: comp_def)
  have loop: "merge_loop (0, 20, OPEN)
         (map (\<lambda>angle. (angle, angle + SECTOR_SIZE, OPEN)) (tl (py_range 0 360 SECTOR_SIZE))) []
       = [(0, 360, OPEN)]"
    by (subst merge_loop_same) (simp_all add: py_range_sectors, simp_all add: SECTOR_SIZE_def)
  have "merge_sectors (classify ?df) = Inr []"
    unfolding cls using loop
    by (simp add: py_range_sectors wrap_fuse_single)
  with len cls loop show ?thesis by blast
qed

text \<open>
  Claim C2. The sector widths add up to 360 degrees, but on empty layers (every sector
  OPEN) the classifier returns no arc at all, and an empty list of arcs does not tile
  the circle.
\<close>

theorem empty_layers_arcs_do_not_tile:
  "sum_list (map (\<lambda>r. end_angle r - start r) (sector_data create_sector [] [] [] [])) = 360
   \<and> view_arcs create_sector [] [] [] [] analysis_circle = Inr []
   \<and> \<not> tiles_circle []
   \<and> sum_list (map arc_width []) = 0"
proof -
  let ?rows = "map (\<lambda>angle. (angle, angle + SECTOR_SIZE, OPEN)) (py_range 0 360 SECTOR_SIZE)"
  have widths: "sum_list (map (\<lambda>r. end_angle r - start r) (sector_data create_sector [] [] [] [])) = 360"
    by (simp add: sector_data_empty_layers comp_def py_range_sectors) (simp add: SECTOR_SIZE_def)
  have near: "nearby [] analysis_circle = []"
    by (simp add: nearby_def landsd_tall_def)
  have cls: "classify (sector_data create_sector [] [] [] []) = ?rows"
    unfolding sector_data_empty_layers
    by (subst classify_uniform [where g = 0 and w = 0 and b = 0 and h = 0]) (simp_all add: comp_def)
  have "merge_sectors ?rows = Inr []"
    by (simp add: py_range_sectors merge_loop_same wrap_fuse_single)
  then have "view_arcs create_sector [] [] [] [] analysis_circle = Inr []"
    by (simp add: view_arcs_def near cls)
  with widths show ?thesis by (simp add: tiles_circle_def)
qed

subsection \<open>Merging when the views differ\<close>

text \<open>
  The loop turns contiguous rows into contiguous arcs with the same first start and the
  same last end. When at least two sectors have different views there are at least two
  arcs, and the arcs that are returned tile the circle, with or without the wrap step:
  the empty result of claims C1 and C2 is confined to the case of one single arc.
\<close>

lemma end_of_Cons: "end_of a ((s, e, v) # rows) = end_of e rows"
  by (simp add: end_of_def)

lemma merge_loop_acc:
  "merge_loop cur rows merged = merged @ merge_loop cur rows []"
proof (induction rows arbitrary: cur merged)
  case Nil
  then show ?case by (cases cur) simp
next
  case (Cons r rows)
  obtain cs ce ct where cur: "cur = (cs, ce, ct)" by (cases cur)
  obtain s e v where r: "r = (s, e, v)" by (cases r)
  show ?case
  proof (cases "v = ct")
    case True
    then show ?thesis using Cons [of "(cs, e, ct)" merged] cur r by simp
  next
    case False
    then show ?thesis
      using Cons [of "(s, e, v)" "merged @ [(cs, ce, ct)]"] Cons [of "(s, e, v)" "[(cs, ce, ct)]"] cur r
      by simp
  qed
qed

lemma merge_loop_nonempty: "merge_loop cur rows merged \<noteq> []"
proof (induction rows arbitrary: cur merged)
  case Nil
  then show ?case by (cases cur) simp
next
  case (Cons r rows)
  obtain cs ce ct where cur: "cur = (cs, ce, ct)" by (cases cur)
  obtain s e v where r: "r = (s, e, v)" by (cases r)
  show ?case using Cons cur r by simp
qed

lemma merge_loop_contiguous:
  assumes "cs < ce" "contiguous_from ce rows"
  shows "contiguous_from cs (merge_loop (cs, ce, ct) rows [])
         \<and> merge_loop (cs, ce, ct) rows [] \<noteq> []
         \<and> end_of cs (merge_loop (cs, ce, ct) rows []) = end_of ce rows"
  using assms
proof (induction rows arbitrary: cs ce ct)
  case Nil
  then show ?case by (simp add: end_of_def)
next
  case (Cons r rows)
  obtain s e v where r: "r = (s, e, v)" by (cases r)
  from Cons.prems r have s: "s = ce" and se: "s < e" and rest: "contiguous_from e rows"
    by simp_all
  show ?case
  proof (cases "v = ct")
    case True
    have "cs < e" using Cons.prems(1) s se by linarith
    from Cons.IH [OF this rest, of ct] show ?thesis
      using True r by (simp add: end_of_Cons)
  next
    case False
    from Cons.IH [OF se rest, of v]
    have c: "contiguous_from s (merge_loop (s, e, v) rows [])"
      and ne: "merge_loop (s, e, v) rows [] \<noteq> []"
      and en: "end_of s (merge_loop (s, e, v) rows []) = end_of e rows"
      by simp_all
    have "merge_loop (cs, ce, ct) (r # rows) [] = (cs, ce, ct) # merge_loop (s, e, v) rows []"
      using False r merge_loop_acc [of "(s, e, v)" rows "[(cs, ce, ct)]"] by simp
    moreover have "end_of ce (merge_loop (s, e, v) rows []) = end_of s (merge_loop (s, e, v) rows [])"
      using ne by (simp add: end_of_def)
    ultimately show ?thesis
      using c ne en s Cons.prems(1) r by (simp add: end_of_Cons)
  qed
qed

lemma merge_loop_two_arcs:
  assumes "\<exists>r \<in> set rows. snd (snd r) \<noteq> ct"
  shows "2 \<le> length (merge_loop (cs, ce, ct) rows [])"
  using assms
proof (induction rows arbitrary: ce)
  case Nil
  then show ?case by simp
next
  case (Cons r rows)
  obtain s e v where r: "r = (s, e, v)" by (cases r)
  show ?case
  proof (cases "v = ct")
    case True
    with Cons.prems r have "\<exists>r \<in> set rows. snd (snd r) \<noteq> ct" by auto
    from Cons.IH [OF this, of e] show ?thesis using True r by simp
  next
    case False
    have "merge_loop (cs, ce, ct) (r # rows) [] = (cs, ce, ct) # merge_loop (s, e, v) rows []"
      using False r merge_loop_acc [of "(s, e, v)" rows "[(cs, ce, ct)]"] by simp
    moreover have "merge_loop (s, e, v) rows [] \<noteq> []"
      by (rule merge_loop_nonempty)
    ultimately show ?thesis by (cases "merge_loop (s, e, v) rows []") simp_all
  qed
qed

lemma contiguous_chained: "contiguous_from a arcs \<Longrightarrow> chained arcs"
proof (induction arcs arbitrary: a rule: chained.induct)
  case 1
  then show ?case by simp
next
  case (2 x)
  then show ?case by simp
next
  case (3 x y arcs)
  obtain s e v where x: "x = (s, e, v)" by (cases x)
  obtain s' e' v' where y: "y = (s', e', v')" by (cases y)
  from 3 x y show ?case by auto
qed

lemma contiguous_widths:
  "contiguous_from a arcs \<Longrightarrow> sum_list (map arc_width arcs) = end_of a arcs - a"
proof (induction arcs arbitrary: a)
  case Nil
  then show ?case by (simp add: end_of_def)
next
  case (Cons x arcs)
  obtain s e v where x: "x = (s, e, v)" by (cases x)
  from Cons.prems x have "s = a" "s < e" "contiguous_from e arcs" by simp_all
  with Cons.IH [of e] x show ?case by (simp add: arc_width_def end_of_Cons)
qed

lemma contiguous_hd: "contiguous_from a arcs \<Longrightarrow> arcs \<noteq> [] \<Longrightarrow> fst (hd arcs) = a"
  by (cases arcs) auto

lemma contiguous_end_ge: "contiguous_from a arcs \<Longrightarrow> a \<le> end_of a arcs"
proof (induction arcs arbitrary: a)
  case Nil
  then show ?case by (simp add: end_of_def)
next
  case (Cons x arcs)
  obtain s e v where x: "x = (s, e, v)" by (cases x)
  from Cons.prems x have "s = a" "s < e" "contiguous_from e arcs" by simp_all
  with Cons.IH [of e] x show ?case by (simp add: end_of_Cons)
qed

lemma contiguous_butlast:
  assumes "contiguous_from a arcs" "arcs \<noteq> []"
  shows "contiguous_from a (butlast arcs) \<and> end_of a (butlast arcs) = fst (last arcs)"
  using assms
proof (induction arcs arbitrary: a)
  case Nil
  then show ?case by simp
next
  case (Cons x arcs)
  obtain s e v where x: "x = (s, e, v)" by (cases x)
  from Cons.prems x have s: "s = a" "s < e" and rest: "contiguous_from e arcs" by simp_all
  show ?case
  proof (cases "arcs = []")
    case True
    then show ?thesis using x s by (simp add: end_of_def)
  next
    case False
    from Cons.IH [OF rest False] show ?thesis
      using False x s by (simp add: end_of_Cons)
  qed
qed


lemma contiguous_chained_after: "contiguous_from e arcs \<Longrightarrow> chained ((z, e, v) # arcs)"
proof (cases arcs)
  case Nil
  then show ?thesis by simp
next
  case (Cons x rest)
  assume c: "contiguous_from e arcs"
  obtain s' e' v' where x: "x = (s', e', v')" by (cases x)
  have "chained arcs" using c by (rule contiguous_chained)
  then show ?thesis using c Cons x by simp
qed

lemma fused_arcs_tile:
  assumes "0 < e1" "contiguous_from e1 arcs" "arcs \<noteq> []" "end_of e1 arcs = 360"
  shows "tiles_circle ((fst (last arcs), e1, v1) # butlast arcs)"
proof -
  let ?z = "fst (last arcs)"
  let ?B = "butlast arcs"
  have B: "contiguous_from e1 ?B" and zB: "end_of e1 ?B = ?z"
    using contiguous_butlast [OF assms(2) assms(3)] by simp_all
  have le: "e1 \<le> ?z" using contiguous_end_ge [OF B] zB by simp
  have ch: "chained ((?z, e1, v1) # ?B)" using B by (rule contiguous_chained_after)
  have close: "fst (snd (last ((?z, e1, v1) # ?B))) = ?z"
    using zB by (simp add: end_of_def split: if_splits)
  have "sum_list (map arc_width ?B) = ?z - e1"
    using contiguous_widths [OF B] zB by simp
  moreover have "arc_width (?z, e1, v1) = e1 - ?z + 360"
    using le by (simp add: arc_width_def)
  ultimately have sum: "sum_list (map arc_width ((?z, e1, v1) # ?B)) = 360" by simp
  show ?thesis
    unfolding tiles_circle_def using ch close sum by simp
qed

lemma merge_sectors_tile:
  assumes c: "contiguous_from 0 rows" and e: "end_of 0 rows = 360"
    and d: "\<exists>r \<in> set rows. \<exists>r' \<in> set rows. snd (snd r) \<noteq> snd (snd r')"
  shows "\<exists>arcs. merge_sectors rows = Inr arcs \<and> tiles_circle arcs"
proof -
  from d obtain r0 rest where rows: "rows = r0 # rest" by (cases rows) auto
  obtain s0 e0 v0 where r0: "r0 = (s0, e0, v0)" by (cases r0)
  from c rows r0 have s0: "s0 = 0" and pos: "0 < e0" and crest: "contiguous_from e0 rest"
    by simp_all
  from d rows r0 have other: "\<exists>r \<in> set rest. snd (snd r) \<noteq> v0" by auto
  let ?R = "merge_loop (0, e0, v0) rest []"
  have cR: "contiguous_from 0 ?R" and neR: "?R \<noteq> []" and eR: "end_of 0 ?R = 360"
    using merge_loop_contiguous [OF pos crest, of v0] e rows r0 by (simp_all add: end_of_Cons)
  have two: "2 \<le> length ?R" using other by (rule merge_loop_two_arcs)
  have ms: "merge_sectors rows = Inr (wrap_fuse ?R)" using rows r0 s0 by simp
  show ?thesis
  proof (cases "snd (snd (hd ?R)) = snd (snd (last ?R))")
    case False
    then have w: "wrap_fuse ?R = ?R" by (simp add: wrap_fuse_def)
    have "chained ?R" using cR by (rule contiguous_chained)
    moreover have "fst (hd ?R) = 0" using cR neR by (rule contiguous_hd)
    moreover have "fst (snd (last ?R)) = 360" using eR neR by (simp add: end_of_def)
    moreover have "sum_list (map arc_width ?R) = 360" using contiguous_widths [OF cR] eR by simp
    ultimately have "tiles_circle ?R" using neR by (simp add: tiles_circle_def)
    then show ?thesis using ms w by simp
  next
    case True
    from two obtain x R2 where R: "?R = x # R2" and R2: "R2 \<noteq> []"
      by (cases ?R; cases "tl ?R") auto
    obtain s1 e1 v1 where x: "x = (s1, e1, v1)" by (cases x)
    from cR R x have "0 < e1" and c2: "contiguous_from e1 R2" by simp_all
    have e2: "end_of e1 R2 = 360" using eR R x by (simp add: end_of_Cons)
    have "wrap_fuse ?R = (fst (last R2), e1, v1) # butlast R2"
      using True R R2 x by (simp add: wrap_fuse_def)
    moreover have "tiles_circle ((fst (last R2), e1, v1) # butlast R2)"
      using \<open>0 < e1\<close> c2 R2 e2 by (rule fused_arcs_tile)
    ultimately show ?thesis using ms by simp
  qed
qed

lemma contiguous_angles_only:
  "map (\<lambda>r. (fst r, fst (snd r))) rows = map (\<lambda>r. (fst r, fst (snd r))) rows'
   \<Longrightarrow> contiguous_from a rows = contiguous_from a rows'"
proof (induction rows arbitrary: rows' a)
  case Nil
  then show ?case by simp
next
  case (Cons r rows)
  then obtain r' rest where rows': "rows' = r' # rest" by (cases rows') auto
  obtain s e v where r: "r = (s, e, v)" by (cases r)
  obtain s' e' v' where r': "r' = (s', e', v')" by (cases r')
  from Cons.prems rows' r r' have "s = s'" "e = e'"
    and "map (\<lambda>r. (fst r, fst (snd r))) rows = map (\<lambda>r. (fst r, fst (snd r))) rest"
    by simp_all
  with Cons.IH [of rest e] rows' r r' show ?case by simp
qed

lemma end_angles_only:
  assumes "map (\<lambda>r. (fst r, fst (snd r))) rows = map (\<lambda>r. (fst r, fst (snd r))) rows'"
  shows "end_of a rows = end_of a rows'"
proof (cases "rows = []")
  case True
  then show ?thesis using assms by (simp add: end_of_def)
next
  case False
  then have ne': "rows' \<noteq> []" using assms by auto
  have "fst (snd (last rows)) = snd (last (map (\<lambda>r. (fst r, fst (snd r))) rows))"
    using False by (simp add: last_map)
  also have "\<dots> = snd (last (map (\<lambda>r. (fst r, fst (snd r))) rows'))"
    by (simp only: assms)
  also have "\<dots> = fst (snd (last rows'))"
    using ne' by (simp add: last_map)
  finally show ?thesis using False ne' by (simp add: end_of_def)
qed

lemma classify_angles:
  "map (\<lambda>r. (fst r, fst (snd r))) (classify df) = map (\<lambda>r. (start r, end_angle r)) df"
  unfolding classify_def Let_def
  by (rule nth_equalityI) simp_all

lemma sector_data_angles:
  "map (\<lambda>r. (start r, end_angle r)) (sector_data create_sector parks water_layer buildings nearby_features)
     = map (\<lambda>r. (fst r, fst (snd r)))
         (map (\<lambda>angle. (angle, angle + SECTOR_SIZE, OPEN)) (py_range 0 360 SECTOR_SIZE))"
  by (simp add: sector_data_def Let_def comp_def)

lemma sector_rows_contiguous:
  "contiguous_from 0 (map (\<lambda>angle. (angle, angle + SECTOR_SIZE, OPEN)) (py_range 0 360 SECTOR_SIZE))"
  "end_of 0 (map (\<lambda>angle. (angle, angle + SECTOR_SIZE, OPEN)) (py_range 0 360 SECTOR_SIZE)) = 360"
  by (simp_all add: py_range_sectors end_of_def, simp_all add: SECTOR_SIZE_def)

lemma view_arcs_tile_unless_uniform:
  assumes "\<exists>r \<in> set (classify (sector_data create_sector parks water_layer buildings
                                   (nearby landsd analysis_circle))).
           \<exists>r' \<in> set (classify (sector_data create_sector parks water_layer buildings
                                   (nearby landsd analysis_circle))).
             snd (snd r) \<noteq> snd (snd r')"
  shows "\<exists>arcs. view_arcs create_sector parks water_layer buildings landsd analysis_circle = Inr arcs
                \<and> tiles_circle arcs"
proof -
  let ?rows = "classify (sector_data create_sector parks water_layer buildings
                          (nearby landsd analysis_circle))"
  let ?ref = "map (\<lambda>angle. (angle, angle + SECTOR_SIZE, OPEN)) (py_range 0 360 SECTOR_SIZE)"
  have same: "map (\<lambda>r. (fst r, fst (snd r))) ?rows = map (\<lambda>r. (fst r, fst (snd r))) ?ref"
    by (simp only: classify_angles sector_data_angles)
  have c: "contiguous_from 0 ?rows"
    using contiguous_angles_only [OF same, of 0] sector_rows_contiguous(1) by simp
  have e: "end_of 0 ?rows = 360"
    using end_angles_only [OF same, of 0] sector_rows_contiguous(2) by simp
  show ?thesis
    unfolding view_arcs_def using c e assms by (rule merge_sectors_tile)
qed

subsection \<open>Coverage ratios\<close>

lemma area_nonneg: "0 \<le> area g"
  by (simp add: area_def)

lemma area_intersection_le: "area (intersection g sector) \<le> area sector"
  by (simp add: area_def intersection_def fcard_mono)

lemma layer_area_nonneg: "0 \<le> layer_area layer sector"
  by (auto simp: layer_area_def area_nonneg intro!: sum_list_nonneg)

lemma layer_area_le_count: "layer_area layer sector \<le> real (length layer) * area sector"
proof -
  have "sum_list (map (\<lambda>g. area (intersection g sector)) layer) \<le> real (length layer) * area sector"
  proof (induction layer)
    case Nil
    then show ?case by simp
  next
    case (Cons g layer)
    have "area (intersection g sector) \<le> area sector" by (rule area_intersection_le)
    with Cons show ?case by (simp add: algebra_simps)
  qed
  then show ?thesis by (simp add: layer_area_def)
qed

lemma disjoint_cover:
  assumes "disjoint_features layer"
  shows "sum_list (map (\<lambda>g. fcard (g |\<inter>| sector)) layer)
         = fcard (foldr (|\<union>|) layer {||} |\<inter>| sector)"
  using assms
proof (induction layer)
  case Nil
  then show ?case by simp
next
  case (Cons g layer)
  then have each: "list_all (\<lambda>h. g |\<inter>| h = {||}) layer" and rest: "disjoint_features layer"
    by simp_all
  have "g |\<inter>| foldr (|\<union>|) layer {||} = {||}"
    using each by (induction layer) (auto simp: inf_sup_distrib1)
  then have "(g |\<inter>| sector) |\<inter>| (foldr (|\<union>|) layer {||} |\<inter>| sector) = {||}"
    by auto
  then have "fcard ((g |\<inter>| sector) |\<union>| (foldr (|\<union>|) layer {||} |\<inter>| sector))
             = fcard (g |\<inter>| sector) + fcard (foldr (|\<union>|) layer {||} |\<inter>| sector)"
    by (rule fcard_funion_disjoint)
  moreover have "(g |\<union>| foldr (|\<union>|) layer {||}) |\<inter>| sector
                 = (g |\<inter>| sector) |\<union>| (foldr (|\<union>|) layer {||} |\<inter>| sector)"
    by auto
  ultimately show ?case using Cons.IH [OF rest] by simp
qed

lemma disjoint_layer_area_le:
  assumes "disjoint_features layer"
  shows "layer_area layer sector \<le> area sector"
proof -
  have "sum_list (map (\<lambda>g. area (intersection g sector)) layer)
        = real (sum_list (map (\<lambda>g. fcard (g |\<inter>| sector)) layer))"
    by (induction layer) (simp_all add: area_def intersection_def)
  also have "\<dots> = real (fcard (foldr (|\<union>|) layer {||} |\<inter>| sector))"
    by (simp add: disjoint_cover [OF assms])
  also have "\<dots> \<le> real (fcard sector)"
    by (simp add: fcard_mono)
  finally show ?thesis by (simp add: layer_area_def area_def)
qed

text \<open>
  Claim C5, as amended. A coverage ratio is never negative, it is at most the number of
  features of the layer, and it is 0 when the sector has zero area. It is at most 1 when
  the features of the layer do not overlap one another: the areas of the features'
  intersections with the sector are added up feature by feature, so a cell covered by
  two features counts twice.
\<close>

theorem coverage_ratio_bounds:
  "0 \<le> coverage_ratio layer sector
   \<and> coverage_ratio layer sector \<le> real (length layer)
   \<and> (area sector = 0 \<longrightarrow> coverage_ratio layer sector = 0)
   \<and> (disjoint_features layer \<longrightarrow> coverage_ratio layer sector \<le> 1)"
proof (intro conjI impI)
  show "0 \<le> coverage_ratio layer sector"
    by (simp add: coverage_ratio_def Let_def layer_area_nonneg area_nonneg)
  show "coverage_ratio layer sector \<le> real (length layer)"
  proof (cases "area sector = 0")
    case True
    then show ?thesis by (simp add: coverage_ratio_def)
  next
    case False
    then have "0 < area sector" using area_nonneg [of sector] by linarith
    then show ?thesis
      using layer_area_le_count [of layer sector]
      by (simp add: coverage_ratio_def pos_divide_le_eq)
  qed
next
  assume "area sector = 0"
  then show "coverage_ratio layer sector = 0" by (simp add: coverage_ratio_def)
next
  assume d: "disjoint_features layer"
  show "coverage_ratio layer sector \<le> 1"
  proof (cases "area sector = 0")
    case True
    then show ?thesis by (simp add: coverage_ratio_def)
  next
    case False
    then have "0 < area sector" using area_nonneg [of sector] by linarith
    then show ?thesis
      using disjoint_layer_area_le [OF d, of sector]
      by (simp add: coverage_ratio_def)
  qed
qed

theorem coverage_ratio_bounds_witness:
  "area {||} = 0 \<and> coverage_ratio [{|(0, 0)|}] {||} = 0
   \<and> disjoint_features [{|(0, 0)|}, {|(1, 0)|}]
   \<and> coverage_ratio [{|(0, 0)|}, {|(1, 0)|}] {|(0, 0), (1, 0), (2, 0)|} \<le> 1"
proof -
  have a: "area {||} = 0" by (simp add: area_def)
  have d: "disjoint_features [{|(0, 0)|}, {|(1, 0)|}]" by simp
  show ?thesis
    using a d coverage_ratio_bounds [of "[{|(0, 0)|}]" "{||}"]
      coverage_ratio_bounds [of "[{|(0, 0)|}, {|(1, 0)|}]" "{|(0, 0), (1, 0), (2, 0)|}"]
    by blast
qed

text \<open>
  The claim as stated fails on a layer with two features that cover the same ground (a
  wood mapped inside a park): both cover the whole sector and the ratio is 2.
\<close>

theorem overlapping_features_ratio_counterexample:
  "coverage_ratio [{|(0, 0), (1, 0)|}, {|(0, 0), (1, 0)|}] {|(0, 0), (1, 0)|} = 2
   \<and> \<not> (coverage_ratio [{|(0, 0), (1, 0)|}, {|(0, 0), (1, 0)|}] {|(0, 0), (1, 0)|} \<le> 1)"
  by (simp add: coverage_ratio_def layer_area_def area_def intersection_def fcard_finsert_if fcard_fempty)

subsection \<open>Building heights\<close>

lemma landsd_tall_drop_low:
  "landsd_tall (filter (\<lambda>f. \<not> TopHeight f - BaseHeight f \<le> 5) landsd) = landsd_tall landsd"
  by (induction landsd) (simp_all add: landsd_tall_def HEIGHT_M_def not_le)

lemma nearby_tall: "f \<in> set (nearby landsd analysis_circle) \<Longrightarrow> 5 < TopHeight f - BaseHeight f"
  by (auto simp: nearby_def landsd_tall_def HEIGHT_M_def)

lemma nearby_subset: "f \<in> set (nearby landsd analysis_circle) \<Longrightarrow> f \<in> set landsd"
  by (auto simp: nearby_def landsd_tall_def)

text \<open>
  Claim C10. Every feature of the height layer that reaches the sector loop is more than
  5 m tall; removing the features of 5 m or less from the file changes nothing; and a
  sector that intersects only features of 5 m or less gets the average height 0.
\<close>

theorem low_buildings_excluded:
  "(\<forall>f \<in> set (nearby landsd analysis_circle). 5 < TopHeight f - BaseHeight f)
   \<and> nearby (filter (\<lambda>f. \<not> TopHeight f - BaseHeight f \<le> 5) landsd) analysis_circle
       = nearby landsd analysis_circle
   \<and> ((\<forall>f \<in> set landsd. intersects (geometry f) sector \<longrightarrow> TopHeight f - BaseHeight f \<le> 5)
        \<longrightarrow> sector_avg_height (nearby landsd analysis_circle) sector = 0)"
proof (intro conjI impI)
  show "\<forall>f \<in> set (nearby landsd analysis_circle). 5 < TopHeight f - BaseHeight f"
    using nearby_tall by blast
  show "nearby (filter (\<lambda>f. \<not> TopHeight f - BaseHeight f \<le> 5) landsd) analysis_circle
        = nearby landsd analysis_circle"
    by (simp add: nearby_def landsd_tall_drop_low)
next
  assume low: "\<forall>f \<in> set landsd. intersects (geometry f) sector \<longrightarrow> TopHeight f - BaseHeight f \<le> 5"
  have "filter (\<lambda>f. intersects (geometry f) sector) (nearby landsd analysis_circle) = []"
  proof (rule filter_False, rule ballI)
    fix f assume f: "f \<in> set (nearby landsd analysis_circle)"
    then have "5 < TopHeight f - BaseHeight f" by (rule nearby_tall)
    moreover have "f \<in> set landsd" using f by (rule nearby_subset)
    ultimately show "\<not> intersects (geometry f) sector" using low by fastforce
  qed
  then show "sector_avg_height (nearby landsd analysis_circle) sector = 0"
    by (simp add: sector_avg_height_def)
qed

theorem low_buildings_excluded_witness:
  "intersects {|(0, 0)|} {|(0, 0), (1, 0)|}
   \<and> nearby [\<lparr>TopHeight = 9, BaseHeight = 4, geometry = {|(0, 0)|}\<rparr>,
              \<lparr>TopHeight = 50, BaseHeight = 10, geometry = {|(7, 7)|}\<rparr>] {|(0, 0), (7, 7)|}
       = [\<lparr>TopHeight = 50, BaseHeight = 10, geometry = {|(7, 7)|}\<rparr>]
   \<and> sector_avg_height
         (nearby [\<lparr>TopHeight = 9, BaseHeight = 4, geometry = {|(0, 0)|}\<rparr>,
                  \<lparr>TopHeight = 50, BaseHeight = 10, geometry = {|(7, 7)|}\<rparr>] {|(0, 0), (7, 7)|})
         {|(0, 0), (1, 0)|} = 0"
proof -
  let ?landsd = "[\<lparr>TopHeight = 9, BaseHeight = 4, geometry = {|(0, 0)|}\<rparr>,
                  \<lparr>TopHeight = 50, BaseHeight = 10, geometry = {|(7, 7)|}\<rparr>]"
  have hit: "intersects {|(0, 0)|} {|(0, 0), (1, 0)|}"
    by (simp add: intersects_def)
  have low: "\<forall>f \<in> set ?landsd. intersects (geometry f) {|(0, 0), (1, 0)|}
               \<longrightarrow> TopHeight f - BaseHeight f \<le> 5"
    by (simp add: intersects_def)
  have near: "nearby ?landsd {|(0, 0), (7, 7)|} = [\<lparr>TopHeight = 50, BaseHeight = 10, geometry = {|(7, 7)|}\<rparr>]"
    by (simp add: nearby_def landsd_tall_def HEIGHT_M_def intersects_def)
  show ?thesis
    using hit low near low_buildings_excluded [of ?landsd "{|(0, 0), (7, 7)|}" "{|(0, 0), (1, 0)|}"]
    by blast
qed

section \<open>Properties of identifier resolution\<close>

subsection \<open>The best candidate is the first with the greatest score\<close>

lemma max_by_from_ge_start: "k c \<le> k (max_by_from k c cs)"
proof (induction cs arbitrary: c)
  case Nil
  then show ?case by simp
next
  case (Cons x cs)
  show ?case
  proof (cases "k c < k x")
    case True
    then show ?thesis using Cons [of x] by simp
  next
    case False
    then show ?thesis using Cons [of c] by simp
  qed
qed

lemma max_by_from_split:
  "\<exists>pre post. c # cs = pre @ max_by_from k c cs # post
     \<and> (\<forall>x \<in> set pre. k x < k (max_by_from k c cs))
     \<and> (\<forall>x \<in> set post. k x \<le> k (max_by_from k c cs))"
proof (induction cs arbitrary: c)
  case Nil
  have "[c] = [] @ max_by_from k c [] # []" by simp
  then show ?case by fastforce
next
  case (Cons y cs)
  show ?case
  proof (cases "k c < k y")
    case True
    from Cons [of y] obtain pre post where s: "y # cs = pre @ max_by_from k y cs # post"
      and lo: "\<forall>x \<in> set pre. k x < k (max_by_from k y cs)"
      and hi: "\<forall>x \<in> set post. k x \<le> k (max_by_from k y cs)"
      by blast
    have best: "max_by_from k c (y # cs) = max_by_from k y cs" using True by simp
    have "k y \<le> k (max_by_from k y cs)" by (rule max_by_from_ge_start)
    with True have c: "k c < k (max_by_from k y cs)" by linarith
    have "c # y # cs = (c # pre) @ max_by_from k c (y # cs) # post"
      unfolding best using s by simp
    moreover have "\<forall>x \<in> set (c # pre). k x < k (max_by_from k c (y # cs))"
      unfolding best using lo c by simp
    moreover have "\<forall>x \<in> set post. k x \<le> k (max_by_from k c (y # cs))"
      unfolding best using hi by simp
    ultimately show ?thesis by blast
  next
    case False
    from Cons [of c] obtain pre post where s: "c # cs = pre @ max_by_from k c cs # post"
      and lo: "\<forall>x \<in> set pre. k x < k (max_by_from k c cs)"
      and hi: "\<forall>x \<in> set post. k x \<le> k (max_by_from k c cs)"
      by blast
    have best: "max_by_from k c (y # cs) = max_by_from k c cs" using False by simp
    show ?thesis
    proof (cases pre)
      case Nil
      have eq: "c # cs = max_by_from k c cs # post"
        using s unfolding Nil by (simp only: append_Nil)
      have b: "max_by_from k c cs = c" using eq by (metis list.inject)
      have p: "post = cs" using eq by (metis list.inject)
      have "c # y # cs = [] @ max_by_from k c (y # cs) # (y # post)"
        unfolding best b p by simp
      moreover have "\<forall>x \<in> set (y # post). k x \<le> k (max_by_from k c (y # cs))"
        unfolding best using hi False b by auto
      ultimately show ?thesis by fastforce
    next
      case (Cons c' pre')
      have eq: "c # cs = c' # (pre' @ max_by_from k c cs # post)"
        using s unfolding Cons by (simp only: append_Cons)
      have c': "c' = c" using eq by (metis list.inject)
      have rest: "cs = pre' @ max_by_from k c cs # post" using eq by (metis list.inject)
      have "k c < k (max_by_from k c cs)" using lo Cons c' by simp
      with False have y: "k y < k (max_by_from k c cs)" by linarith
      have "c # y # cs = (c # y # pre') @ max_by_from k c (y # cs) # post"
        unfolding best using rest by simp
      moreover have "\<forall>x \<in> set (c # y # pre'). k x < k (max_by_from k c (y # cs))"
        unfolding best using lo Cons c' y by simp
      moreover have "\<forall>x \<in> set post. k x \<le> k (max_by_from k c (y # cs))"
        unfolding best using hi by simp
      ultimately show ?thesis by blast
    qed
  qed
qed

lemma find_after_misses:
  "\<forall>x \<in> set pre. \<not> P x \<Longrightarrow> P b \<Longrightarrow> find P (pre @ b # post) = Some b"
  by (induction pre) simp_all

lemma first_highest_max_by_from: "first_highest k (c # cs) = Some (max_by_from k c cs)"
proof -
  let ?b = "max_by_from k c cs"
  obtain pre post where s: "c # cs = pre @ ?b # post"
    and lo: "\<forall>x \<in> set pre. k x < k ?b"
    and hi: "\<forall>x \<in> set post. k x \<le> k ?b"
    using max_by_from_split [of c cs k] by blast
  have "Max (set (map k (c # cs))) = k ?b"
  proof (rule Max_eqI)
    show "finite (set (map k (c # cs)))" by simp
    show "k ?b \<in> set (map k (c # cs))" unfolding s by simp
    fix y assume "y \<in> set (map k (c # cs))"
    then obtain x where "x \<in> set (pre @ ?b # post)" "y = k x" unfolding s by auto
    then show "y \<le> k ?b" using lo hi by fastforce
  qed
  then have "first_highest k (c # cs) = find (\<lambda>x. k x = k ?b) (c # cs)"
    by (simp only: first_highest_def)
  also have "\<dots> = find (\<lambda>x. k x = k ?b) (pre @ ?b # post)" by (simp only: s)
  also have "\<dots> = Some ?b"
    by (rule find_after_misses) (use lo in auto)
  finally show ?thesis .
qed

subsection \<open>Outcomes of a resolution\<close>

lemma resolve_query_sent:
  "snd (resolve_query m service transform data_type v sent)
     = sent @ [query_url m (str_strip m (str_upper m data_type)) v]"
  by (simp add: resolve_query_def requests_get_def Let_def)

lemma resolve_query_fst:
  "fst (resolve_query m service transform data_type v sent)
     = (case resolve_query_try transform (str_strip m (str_upper m data_type)) v
               (service (query_url m (str_strip m (str_upper m data_type)) v)) of
          Inl e \<Rightarrow> Inr None | Inr r \<Rightarrow> Inr r)"
  by (simp add: resolve_query_def requests_get_def Let_def)

lemma resolve_query_returns:
  "\<exists>r. fst (resolve_query m service transform data_type v sent) = Inr r"
  by (simp add: resolve_query_fst split: sum.split)

lemma resolve_query_failure:
  assumes "non_success reply \<or> no_candidates reply"
  shows "(case resolve_query_try transform dt v reply of Inl e \<Rightarrow> Inr None | Inr r \<Rightarrow> Inr r)
         = (Inr None :: py_error + resolved option)"
proof (cases reply)
  case Unreachable
  then show ?thesis by (simp add: resolve_query_try_def)
next
  case (Response status_code b)
  show ?thesis
  proof (cases "status_code = 200")
    case False
    then show ?thesis using Response by (simp add: resolve_query_try_def)
  next
    case True
    with assms Response have "no_candidates (Response 200 b)" by simp
    then show ?thesis using Response True
      by (auto simp: resolve_query_try_def split: option.splits list.splits body.splits)
  qed
qed

lemma resolve_query_candidates:
  assumes "service (query_url m (str_strip m (str_upper m data_type)) v)
           = Response 200 (Object (Some (c # cs)))"
  shows "fst (resolve_query m service transform data_type v sent)
         = (case location (max_by_from score_or_0 c cs) of
              None \<Rightarrow> Inr None
            | Some xy \<Rightarrow>
                Inr (Some \<lparr>query_type = str_strip m (str_upper m data_type), query_value = v,
                           longitude = fst (transform xy), latitude = snd (transform xy)\<rparr>))"
  using assms by (simp add: resolve_query_fst resolve_query_try_def split: option.split)

lemma resolve_lot_sent:
  "snd (resolve_lot service lot sent) = sent @ [lot_url lot]"
  "snd (resolve_lot_unchecked service lot sent) = sent @ [lot_url lot]"
  by (simp_all add: resolve_lot_def resolve_lot_unchecked_def requests_get_def Let_def)

lemma resolve_lot_fst:
  "fst (resolve_lot service lot sent)
     = (case service (lot_url lot) of
            Unreachable \<Rightarrow> Inl ConnectionError
          | Response status_code b \<Rightarrow>
              if 400 \<le> status_code \<and> status_code < 600 then Inl HTTPError else best_location b)"
  "fst (resolve_lot_unchecked service lot sent)
     = (case service (lot_url lot) of
            Unreachable \<Rightarrow> Inl ConnectionError
          | Response status_code b \<Rightarrow> best_location b)"
  by (simp_all add: resolve_lot_def resolve_lot_unchecked_def requests_get_def Let_def)

lemma best_location_none:
  "no_candidates (Response status_code b) \<Longrightarrow> \<exists>e. best_location b = Inl e"
  by (cases "Response status_code b" rule: no_candidates.cases)
     (simp_all add: best_location_def)

lemma resolve_lot_raises:
  assumes "no_candidates (service (lot_url lot))"
  shows "(\<exists>e. fst (resolve_lot service lot sent) = Inl e)
         \<and> (\<exists>e. fst (resolve_lot_unchecked service lot sent) = Inl e)"
proof (cases "service (lot_url lot)")
  case Unreachable
  then show ?thesis by (simp add: resolve_lot_fst)
next
  case (Response status_code b)
  with assms obtain e where "best_location b = Inl e"
    using best_location_none [of status_code b] by auto
  then show ?thesis using Response by (simp add: resolve_lot_fst)
qed

text \<open>
  Claim C9, as amended. \<^verbatim>\<open>resolve_query\<close> makes exactly one request and never raises.
  It returns \<^verbatim>\<open>None\<close> on a non-success response and when no candidate was found; on
  a response with status 200 and a non-empty candidate list it takes the first candidate
  with the greatest score (a missing score counts as 0) and returns \<^verbatim>\<open>None\<close> when
  that candidate has no location, and otherwise the normalised type, the value and the
  transformed coordinates. Every copy of \<^verbatim>\<open>resolve_lot\<close> makes exactly one request
  and raises when no candidate was found. The copies that call \<^verbatim>\<open>raise_for_status\<close>
  raise on a status from 400 to 599; the other copies do not look at the status. On a
  non-empty candidate list that is read, \<^verbatim>\<open>resolve_lot\<close> raises when a candidate
  has no score or when the first candidate with the greatest score has no location, and
  otherwise returns that candidate's coordinates.
\<close>

theorem resolution_failure_outcomes:
  "snd (resolve_query m service transform data_type v sent)
       = sent @ [query_url m (str_strip m (str_upper m data_type)) v]
   \<and> (\<exists>r. fst (resolve_query m service transform data_type v sent) = Inr r)
   \<and> (non_success (service (query_url m (str_strip m (str_upper m data_type)) v))
        \<or> no_candidates (service (query_url m (str_strip m (str_upper m data_type)) v))
        \<longrightarrow> fst (resolve_query m service transform data_type v sent) = Inr None)
   \<and> (\<forall>c cs.
         service (query_url m (str_strip m (str_upper m data_type)) v)
           = Response 200 (Object (Some (c # cs)))
         \<longrightarrow> (\<exists>best. first_highest score_or_0 (c # cs) = Some best
               \<and> fst (resolve_query m service transform data_type v sent)
                   = (case location best of
                        None \<Rightarrow> Inr None
                      | Some xy \<Rightarrow>
                          Inr (Some \<lparr>query_type = str_strip m (str_upper m data_type),
                                     query_value = v,
                                     longitude = fst (transform xy),
                                     latitude = snd (transform xy)\<rparr>))))
   \<and> snd (resolve_lot service lot sent) = sent @ [lot_url lot]
   \<and> snd (resolve_lot_unchecked service lot sent) = sent @ [lot_url lot]
   \<and> (no_candidates (service (lot_url lot))
        \<longrightarrow> (\<exists>e. fst (resolve_lot service lot sent) = Inl e)
            \<and> (\<exists>e. fst (resolve_lot_unchecked service lot sent) = Inl e))
   \<and> (\<forall>status_code b.
         service (lot_url lot) = Response status_code b \<and> 400 \<le> status_code \<and> status_code < 600
         \<longrightarrow> fst (resolve_lot service lot sent) = Inl HTTPError)
   \<and> (\<forall>status_code c cs.
         service (lot_url lot) = Response status_code (Object (Some (c # cs)))
         \<longrightarrow> (\<exists>best. first_highest score_of (c # cs) = Some best
               \<and> fst (resolve_lot_unchecked service lot sent)
                   = (if list_ex (\<lambda>x. score x = None) (c # cs) then Inl KeyError
                      else case location best of None \<Rightarrow> Inl KeyError | Some xy \<Rightarrow> Inr xy)
               \<and> fst (resolve_lot service lot sent)
                   = (if 400 \<le> status_code \<and> status_code < 600 then Inl HTTPError
                      else if list_ex (\<lambda>x. score x = None) (c # cs) then Inl KeyError
                      else case location best of None \<Rightarrow> Inl KeyError | Some xy \<Rightarrow> Inr xy)))"
proof (intro conjI allI impI)
  show "snd (resolve_query m service transform data_type v sent)
        = sent @ [query_url m (str_strip m (str_upper m data_type)) v]"
    by (rule resolve_query_sent)
  show "\<exists>r. fst (resolve_query m service transform data_type v sent) = Inr r"
    by (rule resolve_query_returns)
  show "snd (resolve_lot service lot sent) = sent @ [lot_url lot]"
    by (rule resolve_lot_sent)
  show "snd (resolve_lot_unchecked service lot sent) = sent @ [lot_url lot]"
    by (rule resolve_lot_sent)
next
  assume "non_success (service (query_url m (str_strip m (str_upper m data_type)) v))
          \<or> no_candidates (service (query_url m (str_strip m (str_upper m data_type)) v))"
  then show "fst (resolve_query m service transform data_type v sent) = Inr None"
    by (simp only: resolve_query_fst resolve_query_failure)
next
  fix c cs
  assume "service (query_url m (str_strip m (str_upper m data_type)) v)
          = Response 200 (Object (Some (c # cs)))"
  then have "fst (resolve_query m service transform data_type v sent)
         = (case location (max_by_from score_or_0 c cs) of
              None \<Rightarrow> Inr None
            | Some xy \<Rightarrow>
                Inr (Some \<lparr>query_type = str_strip m (str_upper m data_type), query_value = v,
                           longitude = fst (transform xy), latitude = snd (transform xy)\<rparr>))"
    by (rule resolve_query_candidates)
  with first_highest_max_by_from [of score_or_0 c cs]
  show "\<exists>best. first_highest score_or_0 (c # cs) = Some best
               \<and> fst (resolve_query m service transform data_type v sent)
                   = (case location best of
                        None \<Rightarrow> Inr None
                      | Some xy \<Rightarrow>
                          Inr (Some \<lparr>query_type = str_strip m (str_upper m data_type),
                                     query_value = v,
                                     longitude = fst (transform xy),
                                     latitude = snd (transform xy)\<rparr>))"
    by blast
next
  assume n: "no_candidates (service (lot_url lot))"
  show "\<exists>e. fst (resolve_lot service lot sent) = Inl e"
    using resolve_lot_raises [of service lot sent] n by blast
  show "\<exists>e. fst (resolve_lot_unchecked service lot sent) = Inl e"
    using resolve_lot_raises [of service lot sent] n by blast
next
  fix status_code b
  assume "service (lot_url lot) = Response status_code b \<and> 400 \<le> status_code \<and> status_code < 600"
  then show "fst (resolve_lot service lot sent) = Inl HTTPError"
    by (simp add: resolve_lot_fst)
next
  fix status_code c cs
  assume r: "service (lot_url lot) = Response status_code (Object (Some (c # cs)))"
  have u: "fst (resolve_lot_unchecked service lot sent)
        = (if list_ex (\<lambda>x. score x = None) (c # cs) then Inl KeyError
           else case location (max_by_from score_of c cs) of
                  None \<Rightarrow> Inl KeyError | Some xy \<Rightarrow> Inr xy)"
    using r by (simp add: resolve_lot_fst best_location_def)
  have k: "fst (resolve_lot service lot sent)
        = (if 400 \<le> status_code \<and> status_code < 600 then Inl HTTPError
           else if list_ex (\<lambda>x. score x = None) (c # cs) then Inl KeyError
           else case location (max_by_from score_of c cs) of
                  None \<Rightarrow> Inl KeyError | Some xy \<Rightarrow> Inr xy)"
    using r by (simp add: resolve_lot_fst best_location_def)
  from first_highest_max_by_from [of score_of c cs] u k
  show "\<exists>best. first_highest score_of (c # cs) = Some best
               \<and> fst (resolve_lot_unchecked service lot sent)
                   = (if list_ex (\<lambda>x. score x = None) (c # cs) then Inl KeyError
                      else case location best of None \<Rightarrow> Inl KeyError | Some xy \<Rightarrow> Inr xy)
               \<and> fst (resolve_lot service lot sent)
                   = (if 400 \<le> status_code \<and> status_code < 600 then Inl HTTPError
                      else if list_ex (\<lambda>x. score x = None) (c # cs) then Inl KeyError
                      else case location best of None \<Rightarrow> Inl KeyError | Some xy \<Rightarrow> Inr xy)"
    by blast
qed

text \<open>
  An instance of each case; the string methods are given by their values on the text of
  the example.
\<close>

theorem resolution_failure_outcomes_witness:
  "fst (resolve_query
          \<lparr>str_upper = (\<lambda>s. if s = ''lot'' then ''LOT'' else s),
              str_lower = (\<lambda>s. if s = ''LOT'' then ''lot'' else s),
              str_strip = (\<lambda>s. s)\<rparr>
          (\<lambda>url. Response 503 NotJSON) (\<lambda>p. p) ''lot'' ''IL 1657'' []) = Inr None
   \<and> fst (resolve_query
          \<lparr>str_upper = (\<lambda>s. if s = ''lot'' then ''LOT'' else s),
              str_lower = (\<lambda>s. if s = ''LOT'' then ''lot'' else s),
              str_strip = (\<lambda>s. s)\<rparr>
          (\<lambda>url. Response 200 (Object (Some
               [\<lparr>score = Some 1, location = Some (1, 2)\<rparr>,
                \<lparr>score = Some 3, location = Some (5, 6)\<rparr>,
                \<lparr>score = Some 3, location = Some (7, 8)\<rparr>])))
          (\<lambda>p. p) ''lot'' ''IL 1657'' [])
       = Inr (Some \<lparr>query_type = ''LOT'', query_value = ''IL 1657'', longitude = 5, latitude = 6\<rparr>)
   \<and> (\<exists>e. fst (resolve_lot (\<lambda>url. Unreachable) ''IL 1657'' []) = Inl e)
   \<and> fst (resolve_lot
            (\<lambda>url. Response 404 (Object (Some
               [\<lparr>score = Some 1, location = Some (1, 2)\<rparr>,
                \<lparr>score = Some 3, location = Some (5, 6)\<rparr>,
                \<lparr>score = Some 3, location = Some (7, 8)\<rparr>])))
            ''IL 1657'' [])
       = Inl HTTPError
   \<and> fst (resolve_lot
            (\<lambda>url. Response 200 (Object (Some
               [\<lparr>score = Some 1, location = Some (1, 2)\<rparr>,
                \<lparr>score = Some 3, location = Some (5, 6)\<rparr>,
                \<lparr>score = Some 3, location = Some (7, 8)\<rparr>])))
            ''IL 1657'' [])
       = Inr (5, 6)
   \<and> fst (resolve_lot_unchecked
            (\<lambda>url. Response 404 (Object (Some
               [\<lparr>score = Some 1, location = Some (1, 2)\<rparr>,
                \<lparr>score = Some 3, location = Some (5, 6)\<rparr>,
                \<lparr>score = Some 3, location = Some (7, 8)\<rparr>])))
            ''IL 1657'' [])
       = Inr (5, 6)"
proof -
  let ?m = "\<lparr>str_upper = (\<lambda>s. if s = ''lot'' then ''LOT'' else s),
              str_lower = (\<lambda>s. if s = ''LOT'' then ''lot'' else s),
              str_strip = (\<lambda>s. s)\<rparr>"
  let ?c = "\<lparr>score = Some 1, location = Some (1, 2)\<rparr>"
  let ?b = "\<lparr>score = Some 3, location = Some (5, 6)\<rparr>"
  let ?cs = "[?b, \<lparr>score = Some 3, location = Some (7, 8)\<rparr>]"
  let ?good = "\<lambda>url :: string. Response 200 (Object (Some (?c # ?cs)))"
  let ?refused = "\<lambda>url :: string. Response 404 (Object (Some (?c # ?cs)))"
  have q: "first_highest score_or_0 (?c # ?cs) = Some ?b"
    by (simp add: first_highest_def score_or_0_def)
  have l: "first_highest score_of (?c # ?cs) = Some ?b"
    by (simp add: first_highest_def score_of_def)
  have a: "fst (resolve_query ?m (\<lambda>url. Response 503 NotJSON) (\<lambda>p. p) ''lot'' ''IL 1657'' []) = Inr None"
    using resolution_failure_outcomes
      [where m = ?m and service = "\<lambda>url. Response 503 NotJSON" and transform = "\<lambda>p. p"
         and data_type = "''lot''" and v = "''IL 1657''" and sent = "[]" and lot = "''IL 1657''"]
    by simp
  have b: "fst (resolve_query ?m ?good (\<lambda>p. p) ''lot'' ''IL 1657'' [])
           = Inr (Some \<lparr>query_type = ''LOT'', query_value = ''IL 1657'', longitude = 5, latitude = 6\<rparr>)"
    using resolution_failure_outcomes
      [where m = ?m and service = ?good and transform = "\<lambda>p. p"
         and data_type = "''lot''" and v = "''IL 1657''" and sent = "[]" and lot = "''IL 1657''"] q
    by auto
  have c: "\<exists>e. fst (resolve_lot (\<lambda>url. Unreachable) ''IL 1657'' []) = Inl e"
    using resolution_failure_outcomes
      [where m = ?m and service = "\<lambda>url. Unreachable" and transform = "\<lambda>p. p"
         and data_type = "''lot''" and v = "''IL 1657''" and sent = "[]" and lot = "''IL 1657''"]
    by simp
  have d: "fst (resolve_lot ?refused ''IL 1657'' []) = Inl HTTPError"
    using resolution_failure_outcomes
      [where m = ?m and service = ?refused and transform = "\<lambda>p. p"
         and data_type = "''lot''" and v = "''IL 1657''" and sent = "[]" and lot = "''IL 1657''"]
    by simp
  have e: "fst (resolve_lot ?good ''IL 1657'' []) = Inr (5, 6)"
    using resolution_failure_outcomes
      [where m = ?m and service = ?good and transform = "\<lambda>p. p"
         and data_type = "''lot''" and v = "''IL 1657''" and sent = "[]" and lot = "''IL 1657''"] l
    by auto
  have f: "fst (resolve_lot_unchecked ?refused ''IL 1657'' []) = Inr (5, 6)"
    using resolution_failure_outcomes
      [where m = ?m and service = ?refused and transform = "\<lambda>p. p"
         and data_type = "''lot''" and v = "''IL 1657''" and sent = "[]" and lot = "''IL 1657''"] l
    by auto
  from a b c d e f show ?thesis by blast
qed

text \<open>
  The claim as stated fails for \<^verbatim>\<open>resolve_lot\<close>: an empty candidate list, an
  unreachable service, a body that is not JSON and a status 404 each end in an exception,
  not in the result \<^verbatim>\<open>None\<close>.
\<close>

theorem resolve_lot_raises_counterexample:
  "fst (resolve_lot (\<lambda>url. Response 200 (Object (Some []))) ''IL 1657'' []) = Inl ValueError
   \<and> fst (resolve_lot (\<lambda>url. Unreachable) ''IL 1657'' []) = Inl ConnectionError
   \<and> fst (resolve_lot (\<lambda>url. Response 200 NotJSON) ''IL 1657'' []) = Inl JSONDecodeError
   \<and> fst (resolve_lot (\<lambda>url. Response 404 NotJSON) ''IL 1657'' []) = Inl HTTPError
   \<and> fst (resolve_lot_unchecked (\<lambda>url. Response 200 (Object (Some []))) ''IL 1657'' []) = Inl ValueError"
  by (simp add: resolve_lot_fst best_location_def)

section \<open>Properties of the noise model\<close>

subsection \<open>No roads\<close>

lemma energy_fold_ge:
  "acc \<le> fold (\<lambda>line energy. energy + 10 powr (f line)) lines (acc :: real)"
proof (induction lines arbitrary: acc)
  case Nil
  then show ?case by simp
next
  case (Cons l lines)
  have "acc \<le> acc + 10 powr (f l)" by simp
  also have "\<dots> \<le> fold (\<lambda>line energy. energy + 10 powr (f line)) lines (acc + 10 powr (f l))"
    by (rule Cons.IH)
  finally show ?case by simp
qed

lemma noise_energy_nonneg: "0 \<le> noise_energy site_polygon features p"
  unfolding noise_energy_def by (rule energy_fold_ge)

lemma log10_floor: "10 * log10 (1 / 10 ^ 9) = - 90"
proof -
  have "(1 :: real) / 10 ^ 9 = 10 powr (- 9)"
    by (simp add: powr_minus_divide)
  then have "log 10 (1 / 10 ^ 9) = - 9"
    by (simp only: log_powr_cancel)
  then show ?thesis by (simp add: log10_def)
qed

lemma no_roads_energy:
  assumes "list_all (\<lambda>g. \<not> is_road g) features"
  shows "noise_energy site_polygon features p = 0"
proof -
  have "roads features = []"
    using assms by (simp add: roads_def list_all_iff)
  then show ?thesis by (simp add: noise_energy_def)
qed

text \<open>
  Claim C8. When none of the fetched features is a line, no energy is added to any grid
  cell and every cell of the result is \<open>10 * log10 (1e-9)\<close>, that is -90; and whatever
  the roads are, the argument of the final logarithm is positive.
\<close>

theorem no_roads_epsilon_floor:
  "(list_all (\<lambda>g. \<not> is_road g) features \<longrightarrow>
      (\<forall>p. noise_energy site_polygon features p = 0)
      \<and> noise site_polygon features grid = replicate (length grid) (10 * log10 (1 / 10 ^ 9)))
   \<and> 10 * log10 (1 / 10 ^ 9) = - 90
   \<and> 0 < noise_energy site_polygon features p + 1 / 10 ^ 9"
proof (intro conjI impI allI)
  assume none: "list_all (\<lambda>g. \<not> is_road g) features"
  show "noise site_polygon features grid = replicate (length grid) (10 * log10 (1 / 10 ^ 9))"
    by (simp add: noise_def no_roads_energy [OF none] map_replicate_const)
  fix q
  show "noise_energy site_polygon features q = 0"
    by (rule no_roads_energy [OF none])
next
  show "10 * log10 (1 / 10 ^ 9) = - 90" by (rule log10_floor)
  have "0 \<le> noise_energy site_polygon features p" by (rule noise_energy_nonneg)
  then show "0 < noise_energy site_polygon features p + 1 / 10 ^ 9" by simp
qed

theorem no_roads_epsilon_floor_witness:
  "noise (box 0 0 10 10) [PointGeometry (3, 4), PolygonGeometry [(0, 0), (1, 0), (1, 1)]]
         [(0, 0), (6, 0), (0, 6)]
     = [10 * log10 (1 / 10 ^ 9), 10 * log10 (1 / 10 ^ 9), 10 * log10 (1 / 10 ^ 9)]
   \<and> 10 * log10 (1 / 10 ^ 9) = - 90"
proof -
  have none: "list_all (\<lambda>g. \<not> is_road g) [PointGeometry (3, 4), PolygonGeometry [(0, 0), (1, 0), (1, 1)]]"
    by simp
  show ?thesis
    using none no_roads_epsilon_floor
      [of "[PointGeometry (3, 4), PolygonGeometry [(0, 0), (1, 0), (1, 1)]]" "box 0 0 10 10"
          "[(0, 0), (6, 0), (0, 6)]" "(0, 0)"]
    by (simp add: numeral_3_eq_3)
qed

subsection \<open>Barrier attenuation\<close>

text \<open>
  The squared distance from a point to a segment is the least squared distance to a
  point of the segment, and it is attained; so the sight line meets the buffer of a
  region exactly when some point of the region is within the buffer distance of the
  sight line.
\<close>

lemma quadratic_least_on_unit_interval:
  fixes l2 s t :: real
  assumes l2: "0 < l2" and t: "0 \<le> t" "t \<le> 1"
  shows "(max 0 (min 1 (s / l2)))\<^sup>2 * l2 - 2 * max 0 (min 1 (s / l2)) * s \<le> t\<^sup>2 * l2 - 2 * t * s"
proof -
  consider "s / l2 \<le> 0" | "1 \<le> s / l2" | "0 < s / l2" "s / l2 < 1" by linarith
  then show ?thesis
  proof cases
    case 1
    then have c: "max 0 (min 1 (s / l2)) = 0" by simp
    have s: "s \<le> 0" using 1 l2 by (simp add: divide_le_0_iff)
    have "0 \<le> t\<^sup>2 * l2" using l2 by simp
    moreover have "t * s \<le> 0" using t(1) s by (rule mult_nonneg_nonpos)
    ultimately have "0 \<le> t\<^sup>2 * l2 - 2 * t * s" by linarith
    then show ?thesis unfolding c by simp
  next
    case 2
    then have c: "max 0 (min 1 (s / l2)) = 1" by simp
    have s: "l2 \<le> s" using 2 l2 by (simp add: le_divide_eq)
    have "0 \<le> (1 - t) * (2 * s - l2 * (1 + t))"
    proof (rule mult_nonneg_nonneg)
      show "0 \<le> 1 - t" using t(2) by simp
      have "l2 * (1 + t) \<le> l2 * 2" using l2 t(2) by simp
      then show "0 \<le> 2 * s - l2 * (1 + t)" using s by linarith
    qed
    then have "l2 - 2 * s \<le> t\<^sup>2 * l2 - 2 * t * s"
      by (simp add: algebra_simps power2_eq_square)
    then show ?thesis unfolding c by simp
  next
    case 3
    then have c: "max 0 (min 1 (s / l2)) = s / l2" by simp
    have "0 \<le> (t * l2 - s)\<^sup>2 / l2" using l2 by simp
    also have "(t * l2 - s)\<^sup>2 / l2 = t\<^sup>2 * l2 - 2 * t * s + s\<^sup>2 / l2"
      using l2 by (simp add: field_simps power2_eq_square)
    finally have "- (s\<^sup>2 / l2) \<le> t\<^sup>2 * l2 - 2 * t * s" by linarith
    moreover have "(s / l2)\<^sup>2 * l2 - 2 * (s / l2) * s = - (s\<^sup>2 / l2)"
      using l2 by (simp add: field_simps power2_eq_square)
    ultimately show ?thesis unfolding c by simp
  qed
qed

lemma squared_distance_expand:
  fixes u v dx dy t :: real
  shows "(u - t * dx)\<^sup>2 + (v - t * dy)\<^sup>2
         = u\<^sup>2 + v\<^sup>2 + (t\<^sup>2 * (dx\<^sup>2 + dy\<^sup>2) - 2 * t * (u * dx + v * dy))"
  by (simp add: algebra_simps power2_eq_square)

lemma segment_distance2_at:
  "segment_distance2 a b q =
     (if (fst b - fst a)\<^sup>2 + (snd b - snd a)\<^sup>2 = 0 then (fst q - fst a)\<^sup>2 + (snd q - snd a)\<^sup>2
      else (fst q - fst a - max 0 (min 1 (((fst q - fst a) * (fst b - fst a) + (snd q - snd a) * (snd b - snd a))
                 / ((fst b - fst a)\<^sup>2 + (snd b - snd a)\<^sup>2))) * (fst b - fst a))\<^sup>2
         + (snd q - snd a - max 0 (min 1 (((fst q - fst a) * (fst b - fst a) + (snd q - snd a) * (snd b - snd a))
                 / ((fst b - fst a)\<^sup>2 + (snd b - snd a)\<^sup>2))) * (snd b - snd a))\<^sup>2)"
  by (simp add: segment_distance2_def Let_def algebra_simps)

lemma segment_distance2_least:
  assumes t: "0 \<le> t" "t \<le> 1"
  shows "segment_distance2 a b q
         \<le> (fst q - (fst a + t * (fst b - fst a)))\<^sup>2 + (snd q - (snd a + t * (snd b - snd a)))\<^sup>2"
proof -
  let ?dx = "fst b - fst a" and ?dy = "snd b - snd a"
  let ?u = "fst q - fst a" and ?v = "snd q - snd a"
  let ?l2 = "?dx\<^sup>2 + ?dy\<^sup>2"
  let ?s = "?u * ?dx + ?v * ?dy"
  have rhs: "(fst q - (fst a + t * ?dx))\<^sup>2 + (snd q - (snd a + t * ?dy))\<^sup>2
             = (?u - t * ?dx)\<^sup>2 + (?v - t * ?dy)\<^sup>2"
    by (simp add: algebra_simps)
  show ?thesis
  proof (cases "?l2 = 0")
    case True
    then have "?dx = 0" "?dy = 0" by (simp_all add: sum_power2_eq_zero_iff)
    then show ?thesis by (simp add: segment_distance2_at)
  next
    case False
    then have pos: "0 < ?l2" by (simp add: sum_power2_gt_zero_iff)
    let ?c = "max 0 (min 1 (?s / ?l2))"
    have "segment_distance2 a b q = (?u - ?c * ?dx)\<^sup>2 + (?v - ?c * ?dy)\<^sup>2"
      using False by (simp only: segment_distance2_at if_False)
    also have "\<dots> = ?u\<^sup>2 + ?v\<^sup>2 + (?c\<^sup>2 * ?l2 - 2 * ?c * ?s)"
      by (rule squared_distance_expand)
    also have "\<dots> \<le> ?u\<^sup>2 + ?v\<^sup>2 + (t\<^sup>2 * ?l2 - 2 * t * ?s)"
      using quadratic_least_on_unit_interval [OF pos t, of ?s] by simp
    also have "\<dots> = (?u - t * ?dx)\<^sup>2 + (?v - t * ?dy)\<^sup>2"
      by (rule squared_distance_expand [symmetric])
    finally show ?thesis by (simp only: rhs)
  qed
qed

lemma segment_distance2_attained:
  "\<exists>t. 0 \<le> t \<and> t \<le> 1 \<and>
       segment_distance2 a b q
       = (fst q - (fst a + t * (fst b - fst a)))\<^sup>2 + (snd q - (snd a + t * (snd b - snd a)))\<^sup>2"
proof (cases "(fst b - fst a)\<^sup>2 + (snd b - snd a)\<^sup>2 = 0")
  case True
  then have "fst b - fst a = 0" "snd b - snd a = 0" by (simp_all add: sum_power2_eq_zero_iff)
  then have "segment_distance2 a b q
       = (fst q - (fst a + 0 * (fst b - fst a)))\<^sup>2 + (snd q - (snd a + 0 * (snd b - snd a)))\<^sup>2"
    by (simp add: segment_distance2_at)
  then show ?thesis by (intro exI [of _ 0]) simp
next
  case False
  let ?c = "max 0 (min 1 (((fst q - fst a) * (fst b - fst a) + (snd q - snd a) * (snd b - snd a))
                 / ((fst b - fst a)\<^sup>2 + (snd b - snd a)\<^sup>2)))"
  have "segment_distance2 a b q
       = (fst q - (fst a + ?c * (fst b - fst a)))\<^sup>2 + (snd q - (snd a + ?c * (snd b - snd a)))\<^sup>2"
    using False by (simp add: segment_distance2_at algebra_simps)
  moreover have "0 \<le> ?c" "?c \<le> 1" by simp_all
  ultimately show ?thesis by blast
qed

lemma buffer_meets_sight_line:
  "region_intersects (buffer g r) (sight_line a b) \<longleftrightarrow> (\<exists>q \<in> g. segment_distance a b q \<le> r)"
proof
  assume "region_intersects (buffer g r) (sight_line a b)"
  then obtain p where "p \<in> buffer g r" "p \<in> sight_line a b"
    by (auto simp: region_intersects_def)
  then obtain q t where q: "q \<in> g" and d: "point_distance p q \<le> r"
    and t: "0 \<le> t" "t \<le> 1"
    and p: "p = (fst a + t * (fst b - fst a), snd a + t * (snd b - snd a))"
    by (auto simp: buffer_def sight_line_def)
  have "segment_distance a b q \<le> point_distance p q"
    unfolding segment_distance_def point_distance_def p
    using segment_distance2_least [OF t, of a b q] by simp
  with q d show "\<exists>q \<in> g. segment_distance a b q \<le> r" by (intro bexI [of _ q]) simp_all
next
  assume "\<exists>q \<in> g. segment_distance a b q \<le> r"
  then obtain q where q: "q \<in> g" and d: "segment_distance a b q \<le> r" by blast
  obtain t where t: "0 \<le> t" "t \<le> 1"
    and e: "segment_distance2 a b q
       = (fst q - (fst a + t * (fst b - fst a)))\<^sup>2 + (snd q - (snd a + t * (snd b - snd a)))\<^sup>2"
    using segment_distance2_attained [of a b q] by blast
  let ?p = "(fst a + t * (fst b - fst a), snd a + t * (snd b - snd a))"
  have "point_distance ?p q = segment_distance a b q"
    by (simp add: point_distance_def segment_distance_def e)
  with d have "point_distance ?p q \<le> r" by simp
  with q have "?p \<in> buffer g r" unfolding buffer_def by blast
  moreover have "?p \<in> sight_line a b" using t by (auto simp: sight_line_def)
  ultimately show "region_intersects (buffer g r) (sight_line a b)"
    by (auto simp: region_intersects_def)
qed

lemma centroid_straight: "centroid [a, b] = midpoint [a, b]"
proof (cases "point_distance a b = 0")
  case True
  then show ?thesis by (simp add: centroid_def midpoint_def)
next
  case False
  have "fst a + point_distance a b / 2 / point_distance a b * (fst b - fst a) = (fst a + fst b) / 2"
    using False by (simp add: field_simps)
  moreover have "snd a + point_distance a b / 2 / point_distance a b * (snd b - snd a) = (snd a + snd b) / 2"
    using False by (simp add: field_simps)
  ultimately show ?thesis using False by (simp add: centroid_def midpoint_def)
qed

text \<open>
  Claim C7, as amended. The barrier attenuation is 8 exactly when the straight segment
  from the road line's centroid to the grid point intersects the site polygon buffered
  by 5 m, which is the case exactly when some point of the site is within 5 m of that
  segment, and it is 0 otherwise. The level is the source level minus divergence,
  ground and barrier attenuation plus the constant reflection term -2. For a straight
  road line of two points the centroid is the point half way along the line.
\<close>

theorem barrier_attenuation_and_level:
  "(A_barrier site_polygon line p = 8
      \<longleftrightarrow> region_intersects (buffer site_polygon 5) (sight_line (centroid line) p))
   \<and> (A_barrier site_polygon line p = 0
      \<longleftrightarrow> \<not> region_intersects (buffer site_polygon 5) (sight_line (centroid line) p))
   \<and> (region_intersects (buffer site_polygon 5) (sight_line (centroid line) p)
      \<longleftrightarrow> (\<exists>q \<in> site_polygon. segment_distance (centroid line) p q \<le> 5))
   \<and> A_reflect = - 2
   \<and> point_level site_polygon line p
       = L_source - A_div (line_distance line p) - A_ground (line_distance line p)
         - A_barrier site_polygon line p + A_reflect
   \<and> centroid [a, b] = midpoint [a, b]"
proof (intro conjI)
  show "A_barrier site_polygon line p = 8
      \<longleftrightarrow> region_intersects (buffer site_polygon 5) (sight_line (centroid line) p)"
    by (simp add: A_barrier_def)
  show "A_barrier site_polygon line p = 0
      \<longleftrightarrow> \<not> region_intersects (buffer site_polygon 5) (sight_line (centroid line) p)"
    by (simp add: A_barrier_def)
  show "region_intersects (buffer site_polygon 5) (sight_line (centroid line) p)
      \<longleftrightarrow> (\<exists>q \<in> site_polygon. segment_distance (centroid line) p q \<le> 5)"
    by (rule buffer_meets_sight_line)
  show "A_reflect = - 2" by (simp add: A_reflect_def)
  show "point_level site_polygon line p
       = L_source - A_div (line_distance line p) - A_ground (line_distance line p)
         - A_barrier site_polygon line p + A_reflect"
    by (simp add: point_level_def Let_def)
  show "centroid [a, b] = midpoint [a, b]" by (rule centroid_straight)
qed

text \<open>
  The claim as stated takes the sight line from the road segment's midpoint. On a road
  with a right-angle bend the centroid (150, 50) is not the point half way along the
  line (200, 0). A square site of 10 m south of the bend lies on the sight line from
  the midpoint to the grid point (200, -100) and more than 5 m off the sight line from
  the centroid, so the attenuation that is computed is 0.
\<close>

lemma sqrt_40000: "sqrt 40000 = 200"
  by (rule real_sqrt_unique) simp_all

lemma bend_lengths:
  "point_distance (0, 0) (200, 0) = 200" "point_distance (200, 0) (200, 200) = 200"
  by (simp_all add: point_distance_def sqrt_40000)

lemma bend_centroid: "centroid [(0, 0), (200, 0), (200, 200)] = (150, 50)"
  by (simp add: centroid_def bend_lengths)

lemma bend_midpoint: "midpoint [(0, 0), (200, 0), (200, 200)] = (200, 0)"
  by (simp add: midpoint_def bend_lengths)

lemma site_on_midpoint_sight_line:
  "region_intersects (buffer (box 195 (- 35) 205 (- 25)) 5) (sight_line (200, 0) (200, - 100))"
proof -
  have "(200, - 30) \<in> box 195 (- 35) 205 (- 25)" by (simp add: box_def)
  moreover have "segment_distance (200, 0) (200, - 100) (200, - 30) \<le> 5"
    by (simp add: segment_distance_def segment_distance2_def Let_def)
  ultimately show ?thesis unfolding buffer_meets_sight_line by blast
qed

lemma not_within_five:
  fixes u v :: real
  assumes far: "50 \<le> 3 * u + v" and near: "u\<^sup>2 + v\<^sup>2 \<le> 25"
  shows False
proof -
  define A where "A = (3 * u + v)\<^sup>2"
  define B where "B = (u - 3 * v)\<^sup>2"
  define C where "C = u\<^sup>2 + v\<^sup>2"
  have "A + B = 10 * C"
    unfolding A_def B_def C_def by (simp add: algebra_simps power2_eq_square)
  moreover have "0 \<le> B" unfolding B_def by simp
  moreover have "C \<le> 25" unfolding C_def by (rule near)
  ultimately have "A \<le> 250" by linarith
  moreover have "50\<^sup>2 \<le> A" unfolding A_def using far by (intro power_mono) simp_all
  ultimately show False by simp
qed

lemma site_off_centroid_sight_line:
  "\<not> region_intersects (buffer (box 195 (- 35) 205 (- 25)) 5) (sight_line (150, 50) (200, - 100))"
proof
  assume "region_intersects (buffer (box 195 (- 35) 205 (- 25)) 5) (sight_line (150, 50) (200, - 100))"
  then obtain p where "p \<in> buffer (box 195 (- 35) 205 (- 25)) 5"
    and "p \<in> sight_line (150, 50) (200, - 100)"
    by (auto simp: region_intersects_def)
  then obtain q t where q: "q \<in> box 195 (- 35) 205 (- 25)" and d: "point_distance p q \<le> 5"
    and p: "p = (150 + t * 50, 50 + t * (- 150))"
    by (auto simp: buffer_def sight_line_def)
  obtain qx qy where qxy: "q = (qx, qy)" by (cases q)
  have inside: "195 \<le> qx" "- 35 \<le> qy" using q qxy by (simp_all add: box_def)
  have far: "50 \<le> 3 * (qx - (150 + t * 50)) + (qy - (50 + t * (- 150)))"
    using inside by simp
  have "sqrt ((qx - (150 + t * 50))\<^sup>2 + (qy - (50 + t * (- 150)))\<^sup>2) \<le> 5"
    using d by (simp add: point_distance_def p qxy)
  then have "(qx - (150 + t * 50))\<^sup>2 + (qy - (50 + t * (- 150)))\<^sup>2 \<le> 5\<^sup>2"
    by (rule sqrt_le_D)
  then have near: "(qx - (150 + t * 50))\<^sup>2 + (qy - (50 + t * (- 150)))\<^sup>2 \<le> 25"
    by simp
  from far near show False by (rule not_within_five)
qed

theorem bent_road_barrier_counterexample:
  "centroid [(0, 0), (200, 0), (200, 200)] = (150, 50)
   \<and> midpoint [(0, 0), (200, 0), (200, 200)] = (200, 0)
   \<and> region_intersects (buffer (box 195 (- 35) 205 (- 25)) 5)
        (sight_line (midpoint [(0, 0), (200, 0), (200, 200)]) (200, - 100))
   \<and> A_barrier (box 195 (- 35) 205 (- 25)) [(0, 0), (200, 0), (200, 200)] (200, - 100) = 0"
  using site_on_midpoint_sight_line site_off_centroid_sight_line
  by (simp add: bend_centroid bend_midpoint A_barrier_def)

text \<open>
  A bent line can still have its centroid half way along it, as this line of three equal
  segments has.
\<close>

lemma zigzag_centroid_is_midpoint:
  "centroid [(0, 0), (1, 0), (1, 1), (2, 1)] = (1, 1 / 2)"
  "midpoint [(0, 0), (1, 0), (1, 1), (2, 1)] = (1, 1 / 2)"
  by (simp_all add: centroid_def midpoint_def point_distance_def)

subsection \<open>Source emission\<close>

text \<open>
  A power of ten with a rational exponent is compared with a number by comparing integer
  powers.
\<close>

lemma ten_powr_power: "(10 powr (real p / real q)) ^ q = (10 :: real) ^ p" if "0 < q"
proof -
  have "(10 powr (real p / real q)) ^ q = (10 powr (real p / real q)) powr (real q)"
    by (simp add: powr_realpow)
  also have "\<dots> = 10 powr (real p / real q * real q)"
    by (simp only: powr_powr)
  also have "\<dots> = 10 powr (real p)"
    using that by simp
  also have "\<dots> = 10 ^ p"
    by (simp add: powr_realpow)
  finally show ?thesis .
qed

lemma below_ten_powr:
  assumes "0 \<le> x" "0 < q" "x ^ q < 10 ^ p"
  shows "x < 10 powr (real p / real q)"
proof (rule ccontr)
  assume "\<not> x < 10 powr (real p / real q)"
  then have "10 powr (real p / real q) \<le> x" by simp
  then have "(10 powr (real p / real q)) ^ q \<le> x ^ q"
    by (intro power_mono) simp_all
  then show False using assms by (simp add: ten_powr_power)
qed

lemma above_ten_powr:
  assumes "0 \<le> x" "0 < q" "10 ^ p < x ^ q"
  shows "10 powr (real p / real q) < x"
proof (rule ccontr)
  assume "\<not> 10 powr (real p / real q) < x"
  then have "x \<le> 10 powr (real p / real q)" by simp
  then have "x ^ q \<le> (10 powr (real p / real q)) ^ q"
    using assms(1) by (intro power_mono) simp_all
  then show False using assms by (simp add: ten_powr_power)
qed

lemma traffic_emission_closed_form:
  assumes "0 < flow" "0 < heavy_pct" "heavy_pct < 1"
  shows "traffic_emission flow heavy_pct speed
         = 10 * log10 (flow * ((1 - heavy_pct) * 10 powr (2.77 + 0.002 * speed)
                               + heavy_pct * 10 powr (2.31 + 0.008 * speed)))"
proof -
  have light: "0 < flow * (1 - heavy_pct)" and heavy: "0 < flow * heavy_pct"
    using assms by simp_all
  have "10 powr ((27.7 + 10 * log 10 (flow * (1 - heavy_pct)) + 0.02 * speed) / 10)
        = 10 powr (log 10 (flow * (1 - heavy_pct)) + (2.77 + 0.002 * speed))"
    by (simp add: field_simps)
  also have "\<dots> = flow * (1 - heavy_pct) * 10 powr (2.77 + 0.002 * speed)"
    using light by (simp only: powr_add powr_log_cancel)
  finally have l: "10 powr ((27.7 + 10 * log 10 (flow * (1 - heavy_pct)) + 0.02 * speed) / 10)
        = flow * (1 - heavy_pct) * 10 powr (2.77 + 0.002 * speed)" .
  have "10 powr ((23.1 + 10 * log 10 (flow * heavy_pct) + 0.08 * speed) / 10)
        = 10 powr (log 10 (flow * heavy_pct) + (2.31 + 0.008 * speed))"
    by (simp add: field_simps)
  also have "\<dots> = flow * heavy_pct * 10 powr (2.31 + 0.008 * speed)"
    using heavy by (simp only: powr_add powr_log_cancel)
  finally have h: "10 powr ((23.1 + 10 * log 10 (flow * heavy_pct) + 0.08 * speed) / 10)
        = flow * heavy_pct * 10 powr (2.31 + 0.008 * speed)" .
  show ?thesis
    unfolding traffic_emission_def Let_def log10_def l h
    by (simp add: algebra_simps)
qed

lemma powr_285: "707 < (10 :: real) powr 2.85" "(10 :: real) powr 2.85 < 709"
proof -
  have e: "(2.85 :: real) = real 57 / real 20" by simp
  show "707 < (10 :: real) powr 2.85"
    unfolding e by (rule below_ten_powr) simp_all
  show "(10 :: real) powr 2.85 < 709"
    unfolding e by (rule above_ten_powr) simp_all
qed

lemma powr_26: "398 < (10 :: real) powr 2.6"
proof -
  have e: "(2.6 :: real) = real 13 / real 5" by simp
  show ?thesis unfolding e by (rule below_ten_powr) simp_all
qed

lemma powr_265: "(10 :: real) powr 2.65 < 447"
proof -
  have e: "(2.65 :: real) = real 53 / real 20" by simp
  show ?thesis unfolding e by (rule above_ten_powr) simp_all
qed

lemma powr_263: "398 < (10 :: real) powr 2.63" "(10 :: real) powr 2.63 < 447"
proof -
  have "(10 :: real) powr 2.6 < 10 powr 2.63" by (rule powr_less_mono) simp_all
  with powr_26 show "398 < (10 :: real) powr 2.63" by linarith
  have "(10 :: real) powr 2.63 < 10 powr 2.65" by (rule powr_less_mono) simp_all
  with powr_265 show "(10 :: real) powr 2.63 < 447" by linarith
qed

lemma powr_59: "(10 :: real) powr 5.9 < 803904"
proof -
  have e: "(5.9 :: real) = real 59 / real 10" by simp
  show ?thesis unfolding e by (rule above_ten_powr) simp_all
qed

lemma powr_592: "813072 < (10 :: real) powr 5.92"
proof -
  have e: "(5.92 :: real) = real 148 / real 25" by simp
  show ?thesis unfolding e by (rule below_ten_powr) simp_all
qed

lemma configured_emission:
  "traffic_emission 1200 0.12 40 = 10 * log 10 (1056 * 10 powr 2.85 + 144 * 10 powr 2.63)"
proof -
  have "traffic_emission 1200 0.12 40
        = 10 * log10 (1200 * ((1 - 0.12) * 10 powr (2.77 + 0.002 * 40)
                              + 0.12 * 10 powr (2.31 + 0.008 * 40)))"
    by (rule traffic_emission_closed_form) simp_all
  then show ?thesis by (simp add: log10_def algebra_simps)
qed

lemma configured_emission_bounds:
  "59 < traffic_emission 1200 0.12 40" "traffic_emission 1200 0.12 40 < 59.2"
proof -
  let ?E = "1056 * 10 powr 2.85 + 144 * (10 :: real) powr 2.63"
  have lo: "803904 < ?E" using powr_285(1) powr_263(1) by linarith
  have hi: "?E < 813072" using powr_285(2) powr_263(2) by linarith
  have pos: "0 < ?E" using lo by linarith
  have ten: "(1 :: real) < 10" by simp
  have "10 powr 5.9 < ?E" using powr_59 lo by linarith
  with less_log_iff [OF ten pos, of "5.9"] have "5.9 < log 10 ?E" by blast
  then have "59 < 10 * log 10 ?E" by linarith
  then show "59 < traffic_emission 1200 0.12 40"
    by (simp only: configured_emission)
  have "?E < 10 powr 5.92" using powr_592 hi by linarith
  with log_less_iff [OF ten pos, of "5.92"] have "log 10 ?E < 5.92" by blast
  then have "10 * log 10 ?E < 59.2" by simp
  then show "traffic_emission 1200 0.12 40 < 59.2"
    by (simp only: configured_emission)
qed

text \<open>
  Claim C6, as amended. For a positive flow and a heavy fraction strictly between 0 and 1
  the source level is the stated formula, which is ten times the logarithm of
  \<open>flow * ((1 - heavy) * 10 powr (2.77 + 0.002 * speed) + heavy * 10 powr (2.31 + 0.008 * speed))\<close>.
  For the configured flow 1200, heavy fraction 0.12 and speed 40 it lies between 59 and
  59.2 dB.
\<close>

theorem traffic_emission_formula:
  "(0 < flow \<and> 0 < heavy_frac \<and> heavy_frac < 1 \<longrightarrow>
      traffic_emission flow heavy_frac speed
        = 10 * log10 (10 powr ((27.7 + 10 * log10 (flow * (1 - heavy_frac)) + 0.02 * speed) / 10)
                      + 10 powr ((23.1 + 10 * log10 (flow * heavy_frac) + 0.08 * speed) / 10))
      \<and> traffic_emission flow heavy_frac speed
        = 10 * log10 (flow * ((1 - heavy_frac) * 10 powr (2.77 + 0.002 * speed)
                              + heavy_frac * 10 powr (2.31 + 0.008 * speed))))
   \<and> L_source = traffic_emission 1200 0.12 40
   \<and> 59 < traffic_emission 1200 0.12 40 \<and> traffic_emission 1200 0.12 40 < 59.2"
proof (intro conjI impI)
  assume a: "0 < flow \<and> 0 < heavy_frac \<and> heavy_frac < 1"
  show "traffic_emission flow heavy_frac speed
        = 10 * log10 (10 powr ((27.7 + 10 * log10 (flow * (1 - heavy_frac)) + 0.02 * speed) / 10)
                      + 10 powr ((23.1 + 10 * log10 (flow * heavy_frac) + 0.08 * speed) / 10))"
    by (simp add: traffic_emission_def Let_def)
  show "traffic_emission flow heavy_frac speed
        = 10 * log10 (flow * ((1 - heavy_frac) * 10 powr (2.77 + 0.002 * speed)
                              + heavy_frac * 10 powr (2.31 + 0.008 * speed)))"
    using a by (intro traffic_emission_closed_form) simp_all
next
  show "L_source = traffic_emission 1200 0.12 40"
    by (simp add: L_source_def TRAFFIC_FLOW_def HEAVY_PERCENT_def SPEED_def)
  show "59 < traffic_emission 1200 0.12 40" by (rule configured_emission_bounds)
  show "traffic_emission 1200 0.12 40 < 59.2" by (rule configured_emission_bounds)
qed

theorem traffic_emission_formula_witness:
  "traffic_emission 1200 0.12 40
     = 10 * log10 (1200 * ((1 - 0.12) * 10 powr (2.77 + 0.002 * 40)
                           + 0.12 * 10 powr (2.31 + 0.008 * 40)))
   \<and> 59 < traffic_emission 1200 0.12 40 \<and> traffic_emission 1200 0.12 40 < 59.2"
proof -
  have h: "(0 :: real) < 1200 \<and> (0 :: real) < 0.12 \<and> (0.12 :: real) < 1" by simp
  show ?thesis
    using h traffic_emission_formula [of 1200 "0.12" 40] by blast
qed

text \<open>
  The claim as stated puts the configured source level in the range of 76 to 78 dB; the
  formula gives about 59.1 dB.
\<close>

theorem configured_emission_range_counterexample:
  "\<not> (76 \<le> traffic_emission 1200 0.12 40 \<and> traffic_emission 1200 0.12 40 \<le> 78)"
  using configured_emission_bounds(2) by linarith

end
